theory Spec2Isabelle
  imports
    Complex_Main
    "HOL-Library.AList"
    "HOL-Library.Char_ord"
    "HOL-Library.List_Lexorder"
begin

section \<open>The shared store of the intake pipeline (src/memory/shared\_memory.py)\<close>

text \<open>
  The store is a Python object with two dictionaries, two configuration integers and a
  dictionary of statistics. Python dictionaries keep insertion order, and
  \<open>_cleanup_old_entries\<close> sorts \<open>self._memory.items()\<close> with a stable sort, so both
  dictionaries are association lists: \<open>map_of\<close> is \<open>dict.get\<close>, \<open>AList.update\<close> is
  \<open>d[k] = v\<close> (an existing key keeps its place, a new one goes to the end) and
  \<open>AList.delete\<close> is \<open>del d[k]\<close>. Timestamps are strings, compared as Python compares
  \<open>str\<close>: lexicographically by character code.

  Values of type \<open>Any\<close> are a type parameter \<open>'v\<close>. Dictionaries handed to the store are
  modelled by value: the sharing between a caller's dictionary and the one kept in the
  entry is outside the model.
\<close>

subsection \<open>Library functions and the clock\<close>

text \<open>
  Times are counted in microseconds. A \<open>datetime\<close> is naive or carries a time zone;
  \<open>datetime.utcnow()\<close> is always naive, and Python refuses to compare or subtract a naive
  and a zone-aware \<open>datetime\<close> (\<open>TypeError\<close>). The standard library is a parameter of
  every operation: \<open>utcnow n\<close> is what the \<open>n\<close>-th call of \<open>datetime.utcnow()\<close> returns,
  \<open>isoformat\<close> is \<open>datetime.isoformat\<close> on a naive time, \<open>fromisoformat\<close> is
  \<open>datetime.fromisoformat\<close> (\<open>None\<close> where it raises \<open>ValueError\<close>) and \<open>asdict_model\<close> is
  \<open>dataclasses.asdict\<close> applied to a \<open>ClassificationResult\<close> (\<open>None\<close> where it raises
  \<open>TypeError\<close>, which it does on an object that is not a dataclass instance). The range
  limits of \<open>datetime\<close> (\<open>OverflowError\<close>) are not modelled.
\<close>

datatype error = KeyError | ValueError | TypeError

datatype datetime = Naive int | Aware int

record ClassificationResult =
  cr_format :: string
  cr_intent :: string
  cr_confidence :: real
  cr_timestamp :: string
  cr_error :: "string option"

record env =
  utcnow :: "nat \<Rightarrow> int"
  isoformat :: "int \<Rightarrow> string"
  fromisoformat :: "string \<Rightarrow> datetime option"
  asdict_model :: "ClassificationResult \<Rightarrow> ClassificationResult option"

subsection \<open>Data model\<close>

record 'v MemoryEntry =
  processing_id :: string
  timestamp :: string
  metadata :: "(string \<times> 'v) list"
  classification :: "ClassificationResult option"
  extracted_data :: "(string \<times> 'v) list option"
  conversation_id :: "string option"
  agent_history :: "string list"

record stats =
  total_entries :: nat
  active_conversations :: nat
  last_cleanup :: string
  last_update :: "string option"

text \<open>
  \<open>ticks\<close> counts the calls of \<open>datetime.utcnow()\<close> made so far; it is the only field
  that is not an attribute of the Python object.
\<close>

record 'v SharedMemory =
  memory :: "(string \<times> 'v MemoryEntry) list"
  conversation_index :: "(string \<times> string list) list"
  max_entries :: int
  cleanup_hours :: int
  stats :: stats
  ticks :: nat

definition now :: "env \<Rightarrow> 'v SharedMemory \<Rightarrow> int \<times> 'v SharedMemory" where
  "now E s = (utcnow E (ticks s), s\<lparr>ticks := Suc (ticks s)\<rparr>)"

definition timedelta_hours :: "int \<Rightarrow> int" where
  "timedelta_hours h = h * 3600000000"

definition init :: "env \<Rightarrow> int \<Rightarrow> int \<Rightarrow> 'v SharedMemory" where
  "init E me ch =
     \<lparr>memory = [], conversation_index = [], max_entries = me, cleanup_hours = ch,
      stats = \<lparr>total_entries = 0, active_conversations = 0,
               last_cleanup = isoformat E (utcnow E 0), last_update = None\<rparr>,
      ticks = 1\<rparr>"

subsection \<open>Statistics and deletion\<close>

definition update_stats :: "env \<Rightarrow> 'v SharedMemory \<Rightarrow> 'v SharedMemory" where
  "update_stats E s =
     (let (t, s1) = now E s
      in s1\<lparr>stats := (stats s1)\<lparr>total_entries := length (memory s1),
                                 active_conversations := length (conversation_index s1),
                                 last_update := Some (isoformat E t)\<rparr>\<rparr>)"

text \<open>
  \<open>unregister pid cid idx\<close> is the block of \<open>clear_memory\<close> under
  \<open>if entry.conversation_id:\<close>. When \<open>cid\<close> is no key of the index, \<open>conv_list\<close> is a
  fresh empty list, and \<open>del self._conversation_index[cid]\<close> raises \<open>KeyError\<close>.
\<close>

definition unregister ::
  "string \<Rightarrow> string \<Rightarrow> (string \<times> string list) list \<Rightarrow> error + (string \<times> string list) list" where
  "unregister pid cid idx =
     (case map_of idx cid of
        None \<Rightarrow> Inl KeyError
      | Some conv_list \<Rightarrow>
          (let conv_list' = (if pid \<in> set conv_list then remove1 pid conv_list else conv_list)
           in if conv_list' = [] then Inr (AList.delete cid idx)
              else Inr (AList.update cid conv_list' idx)))"

text \<open>
  \<open>clear_memory\<close> catches every exception and returns \<open>False\<close>; the only one its body can
  raise is the \<open>KeyError\<close> above, before anything has been changed. The test
  \<open>if entry.conversation_id:\<close> is false for \<open>None\<close> and for the empty string.
\<close>

definition clear_memory :: "env \<Rightarrow> string \<Rightarrow> 'v SharedMemory \<Rightarrow> bool \<times> 'v SharedMemory" where
  "clear_memory E pid s =
     (case map_of (memory s) pid of
        None \<Rightarrow> (False, s)
      | Some entry \<Rightarrow>
          (case (case conversation_id entry of
                   None \<Rightarrow> Inr (conversation_index s)
                 | Some cid \<Rightarrow> if cid \<noteq> [] then unregister pid cid (conversation_index s)
                              else Inr (conversation_index s)) of
             Inl e \<Rightarrow> (False, s)
           | Inr idx \<Rightarrow>
               (True, update_stats E
                        (s\<lparr>conversation_index := idx,
                           memory := AList.delete pid (memory s)\<rparr>))))"

definition clear_all_memory :: "env \<Rightarrow> 'v SharedMemory \<Rightarrow> bool \<times> 'v SharedMemory" where
  "clear_all_memory E s = (True, update_stats E (s\<lparr>memory := [], conversation_index := []\<rparr>))"

text \<open>The loop \<open>for processing_id in ids: self.clear_memory(processing_id)\<close>.\<close>

definition clear_each :: "env \<Rightarrow> string list \<Rightarrow> 'v SharedMemory \<Rightarrow> 'v SharedMemory" where
  "clear_each E ids s = fold (\<lambda>pid st. snd (clear_memory E pid st)) ids s"

subsection \<open>Retention\<close>

definition cleanup_old_entries :: "env \<Rightarrow> 'v SharedMemory \<Rightarrow> 'v SharedMemory" where
  "cleanup_old_entries E s =
     (if int (length (memory s)) \<le> max_entries s then s
      else
        (let sorted_entries = sort_key (\<lambda>x. timestamp (snd x)) (memory s);
             entries_to_remove = int (length (memory s)) - max_entries s + 100;
             n = nat (min entries_to_remove (int (length sorted_entries)))
         in clear_each E (map fst (take n sorted_entries)) s))"

text \<open>
  The first loop of \<open>_cleanup_expired_entries\<close>, over the table in its order. A stamp that
  does not parse raises \<open>ValueError\<close>, which the loop catches: the id is collected. A stamp
  that parses to a zone-aware time makes \<open>entry_time < cutoff_time\<close> raise \<open>TypeError\<close>,
  which \<open>except ValueError\<close> does not catch: the loop, and the method, end there.
\<close>

fun collect_expired ::
  "env \<Rightarrow> int \<Rightarrow> (string \<times> 'v MemoryEntry) list \<Rightarrow> error + string list" where
  "collect_expired E cutoff_time [] = Inr []"
| "collect_expired E cutoff_time ((pid, entry) # rest) =
     (case fromisoformat E (timestamp entry) of
        None \<Rightarrow> map_sum id (Cons pid) (collect_expired E cutoff_time rest)
      | Some (Aware z) \<Rightarrow> Inl TypeError
      | Some (Naive entry_time) \<Rightarrow>
          if entry_time < cutoff_time
          then map_sum id (Cons pid) (collect_expired E cutoff_time rest)
          else collect_expired E cutoff_time rest)"

text \<open>
  When the loop raises, nothing has been deleted and \<open>last_cleanup\<close> is not set: only the
  clock has been read once. The result pairs the exception (if any) with the state.
\<close>

definition cleanup_expired_entries ::
  "env \<Rightarrow> 'v SharedMemory \<Rightarrow> error option \<times> 'v SharedMemory" where
  "cleanup_expired_entries E s =
     (let (t1, s1) = now E s;
          cutoff_time = t1 - timedelta_hours (cleanup_hours s1)
      in case collect_expired E cutoff_time (memory s1) of
           Inl e \<Rightarrow> (Some e, s1)
         | Inr expired_ids \<Rightarrow>
             (let s2 = clear_each E expired_ids s1;
                  (t2, s3) = now E s2
              in (None, s3\<lparr>stats := (stats s3)\<lparr>last_cleanup := isoformat E t2\<rparr>\<rparr>)))"

text \<open>
  \<open>_cleanup_if_needed\<close> raises \<open>ValueError\<close> when the stored last-sweep stamp does not
  parse, and \<open>TypeError\<close> when it parses to a zone-aware time (the clock is read, then the
  subtraction fails); an exception of the sweep passes through. The state reached until
  then is kept.
\<close>

definition cleanup_if_needed :: "env \<Rightarrow> 'v SharedMemory \<Rightarrow> error option \<times> 'v SharedMemory" where
  "cleanup_if_needed E s =
     (let current_count = length (memory s);
          s1 = (if int current_count > max_entries s then cleanup_old_entries E s else s)
      in case fromisoformat E (last_cleanup (stats s1)) of
           None \<Rightarrow> (Some ValueError, s1)
         | Some last_cleanup_time \<Rightarrow>
             (let (t, s2) = now E s1
              in case last_cleanup_time of
                   Aware z \<Rightarrow> (Some TypeError, s2)
                 | Naive lc \<Rightarrow>
                     if t - lc > timedelta_hours (cleanup_hours s2)
                     then cleanup_expired_entries E s2
                     else (None, s2)))"

subsection \<open>The four writes\<close>

definition dict_update :: "(string \<times> 'v) list \<Rightarrow> (string \<times> 'v) list \<Rightarrow> (string \<times> 'v) list" where
  "dict_update d other = fold (\<lambda>kv acc. AList.update (fst kv) (snd kv) acc) other d"

definition new_entry :: "string \<Rightarrow> string \<Rightarrow> string \<Rightarrow> 'v MemoryEntry" where
  "new_entry pid ts tag =
     \<lparr>processing_id = pid, timestamp = ts, metadata = [], classification = None,
      extracted_data = None, conversation_id = None, agent_history = [tag]\<rparr>"

text \<open>
  The part the four writes share: create the entry with the clock's reading when the id is
  new (\<open>create\<close> fills the written field), change it in place otherwise (\<open>change\<close>).
\<close>

definition put ::
  "env \<Rightarrow> string \<Rightarrow> (string \<Rightarrow> 'v MemoryEntry) \<Rightarrow> ('v MemoryEntry \<Rightarrow> 'v MemoryEntry) \<Rightarrow>
   'v SharedMemory \<Rightarrow> 'v SharedMemory" where
  "put E pid create change s =
     (case map_of (memory s) pid of
        None \<Rightarrow>
          (let (t, s1) = now E s
           in s1\<lparr>memory := AList.update pid (create (isoformat E t)) (memory s1)\<rparr>)
      | Some entry \<Rightarrow> s\<lparr>memory := AList.update pid (change entry) (memory s)\<rparr>)"

definition store_metadata ::
  "env \<Rightarrow> string \<Rightarrow> (string \<times> 'v) list \<Rightarrow> 'v SharedMemory \<Rightarrow> bool \<times> 'v SharedMemory" where
  "store_metadata E pid md s =
     (let s1 = put E pid
                 (\<lambda>ts. (new_entry pid ts ''metadata_stored'')\<lparr>metadata := md\<rparr>)
                 (\<lambda>e. e\<lparr>metadata := dict_update (metadata e) md,
                        agent_history := agent_history e @ [''metadata_updated'']\<rparr>) s;
          s2 = update_stats E s1
      in case cleanup_if_needed E s2 of
           (Some e, s3) \<Rightarrow> (False, s3)
         | (None, s3) \<Rightarrow> (True, s3))"

definition store_classification ::
  "env \<Rightarrow> string \<Rightarrow> ClassificationResult \<Rightarrow> 'v SharedMemory \<Rightarrow> bool \<times> 'v SharedMemory" where
  "store_classification E pid c s =
     (let s1 = put E pid
                 (\<lambda>ts. (new_entry pid ts ''classification_stored'')\<lparr>classification := Some c\<rparr>)
                 (\<lambda>e. e\<lparr>classification := Some c,
                        agent_history := agent_history e @ [''classification_stored'']\<rparr>) s
      in (True, update_stats E s1))"

definition store_extracted_data ::
  "env \<Rightarrow> string \<Rightarrow> (string \<times> 'v) list \<Rightarrow> 'v SharedMemory \<Rightarrow> bool \<times> 'v SharedMemory" where
  "store_extracted_data E pid d s =
     (let s1 = put E pid
                 (\<lambda>ts. (new_entry pid ts ''data_extracted'')\<lparr>extracted_data := Some d\<rparr>)
                 (\<lambda>e. e\<lparr>extracted_data := Some d,
                        agent_history := agent_history e @ [''data_extracted'']\<rparr>) s
      in (True, update_stats E s1))"

definition register :: "string \<Rightarrow> string \<Rightarrow> (string \<times> string list) list \<Rightarrow> (string \<times> string list) list" where
  "register pid cid idx =
     (let idx1 = (if map_of idx cid = None then AList.update cid [] idx else idx);
          conv_list = (case map_of idx1 cid of None \<Rightarrow> [] | Some l \<Rightarrow> l)
      in if pid \<notin> set conv_list then AList.update cid (conv_list @ [pid]) idx1 else idx1)"

definition store_conversation_id ::
  "env \<Rightarrow> string \<Rightarrow> string \<Rightarrow> 'v SharedMemory \<Rightarrow> bool \<times> 'v SharedMemory" where
  "store_conversation_id E pid cid s =
     (let s1 = put E pid
                 (\<lambda>ts. (new_entry pid ts ''conversation_id_stored'')\<lparr>conversation_id := Some cid\<rparr>)
                 (\<lambda>e. e\<lparr>conversation_id := Some cid,
                        agent_history := agent_history e @ [''conversation_id_stored'']\<rparr>) s;
          s2 = s1\<lparr>conversation_index := register pid cid (conversation_index s1)\<rparr>
      in (True, update_stats E s2))"

subsection \<open>Reads\<close>

definition serialize_entry :: "env \<Rightarrow> 'v MemoryEntry \<Rightarrow> error + 'v MemoryEntry" where
  "serialize_entry E entry =
     (case classification entry of
        None \<Rightarrow> Inr entry
      | Some c \<Rightarrow>
          (case asdict_model E c of
             None \<Rightarrow> Inl TypeError
           | Some d \<Rightarrow> Inr (entry\<lparr>classification := Some d\<rparr>)))"

definition get_memory :: "env \<Rightarrow> 'v SharedMemory \<Rightarrow> string \<Rightarrow> error + 'v MemoryEntry option" where
  "get_memory E s pid =
     (case map_of (memory s) pid of
        None \<Rightarrow> Inr None
      | Some entry \<Rightarrow> map_sum id Some (serialize_entry E entry))"

definition get_metadata :: "'v SharedMemory \<Rightarrow> string \<Rightarrow> (string \<times> 'v) list option" where
  "get_metadata s pid = map_option metadata (map_of (memory s) pid)"

definition get_classification :: "'v SharedMemory \<Rightarrow> string \<Rightarrow> ClassificationResult option" where
  "get_classification s pid =
     (case map_of (memory s) pid of None \<Rightarrow> None | Some entry \<Rightarrow> classification entry)"

definition get_extracted_data :: "'v SharedMemory \<Rightarrow> string \<Rightarrow> (string \<times> 'v) list option" where
  "get_extracted_data s pid =
     (case map_of (memory s) pid of None \<Rightarrow> None | Some entry \<Rightarrow> extracted_data entry)"

text \<open>
  The loop of \<open>get_conversation_history\<close>: an id without an entry is passed over, and the
  first entry that does not serialise ends the call with its exception.
\<close>

fun collect_history ::
  "env \<Rightarrow> (string \<times> 'v MemoryEntry) list \<Rightarrow> string list \<Rightarrow> error + 'v MemoryEntry list" where
  "collect_history E mem [] = Inr []"
| "collect_history E mem (pid # pids) =
     (case map_of mem pid of
        None \<Rightarrow> collect_history E mem pids
      | Some entry \<Rightarrow>
          (case serialize_entry E entry of
             Inl e \<Rightarrow> Inl e
           | Inr d \<Rightarrow>
               (case collect_history E mem pids of
                  Inl e \<Rightarrow> Inl e
                | Inr ds \<Rightarrow> Inr (d # ds))))"

text \<open>\<open>bucket s cid\<close> is \<open>self._conversation_index.get(cid, [])\<close>.\<close>

definition bucket :: "'v SharedMemory \<Rightarrow> string \<Rightarrow> string list" where
  "bucket s cid = (case map_of (conversation_index s) cid of None \<Rightarrow> [] | Some l \<Rightarrow> l)"

definition get_conversation_history ::
  "env \<Rightarrow> 'v SharedMemory \<Rightarrow> string \<Rightarrow> error + 'v MemoryEntry list" where
  "get_conversation_history E s cid =
     (let processing_ids = bucket s cid
      in case collect_history E (memory s) processing_ids of
           Inl e \<Rightarrow> Inl e
         | Inr history \<Rightarrow> Inr (sort_key timestamp history))"

subsection \<open>The invariant of the store\<close>

text \<open>
  Keys are unique in both dictionaries, no bucket lists an id twice, every entry is filed
  under its own id, and an entry whose conversation id is a non-empty string is listed in
  that conversation's bucket. The last part is what keeps \<open>clear_memory\<close> away from its
  \<open>KeyError\<close>.
\<close>

definition linked :: "string \<Rightarrow> 'v MemoryEntry \<Rightarrow> (string \<times> string list) list \<Rightarrow> bool" where
  "linked pid e idx =
     (case conversation_id e of
        None \<Rightarrow> True
      | Some cid \<Rightarrow> cid = [] \<or> (case map_of idx cid of None \<Rightarrow> False | Some l \<Rightarrow> pid \<in> set l))"

definition wf :: "'v SharedMemory \<Rightarrow> bool" where
  "wf s \<longleftrightarrow>
     distinct (map fst (memory s)) \<and> distinct (map fst (conversation_index s)) \<and>
     list_all (\<lambda>b. distinct (snd b)) (conversation_index s) \<and>
     list_all (\<lambda>x. processing_id (snd x) = fst x \<and> linked (fst x) (snd x) (conversation_index s))
       (memory s)"

text \<open>
  \<open>naive_stamps\<close>: no creation stamp of the table parses to a zone-aware time. The store
  writes the stamps of \<open>utcnow().isoformat()\<close> only, so this holds in every state it
  produces as long as \<open>fromisoformat\<close> reads back what \<open>isoformat\<close> wrote.
\<close>

definition zone_aware :: "env \<Rightarrow> 'v MemoryEntry \<Rightarrow> bool" where
  "zone_aware E entry =
     (case fromisoformat E (timestamp entry) of
        None \<Rightarrow> False
      | Some (Naive t) \<Rightarrow> False
      | Some (Aware z) \<Rightarrow> True)"


definition naive_stamps :: "env \<Rightarrow> 'v SharedMemory \<Rightarrow> bool" where
  "naive_stamps E s = list_all (\<lambda>x. \<not> zone_aware E (snd x)) (memory s)"

definition reads_back :: "env \<Rightarrow> bool" where
  "reads_back E \<longleftrightarrow> (\<forall>t. fromisoformat E (isoformat E t) = Some (Naive t))"

text \<open>The states a store can be in: built by \<open>__init__\<close>, changed by its public methods.\<close>

inductive reachable :: "env \<Rightarrow> 'v SharedMemory \<Rightarrow> bool" for E :: env where
  r_init: "reachable E (init E me ch)"
| r_metadata: "reachable E s \<Longrightarrow> reachable E (snd (store_metadata E pid md s))"
| r_classification: "reachable E s \<Longrightarrow> reachable E (snd (store_classification E pid c s))"
| r_extracted: "reachable E s \<Longrightarrow> reachable E (snd (store_extracted_data E pid d s))"
| r_conversation: "reachable E s \<Longrightarrow> reachable E (snd (store_conversation_id E pid cid s))"
| r_clear: "reachable E s \<Longrightarrow> reachable E (snd (clear_memory E pid s))"
| r_clear_all: "reachable E s \<Longrightarrow> reachable E (snd (clear_all_memory E s))"

subsection \<open>Sequences of writes to one id\<close>

datatype 'v write_op =
    PutMetadata "(string \<times> 'v) list"
  | PutClassification ClassificationResult
  | PutExtractedData "(string \<times> 'v) list"
  | PutConversationId string

fun apply_write :: "env \<Rightarrow> string \<Rightarrow> 'v write_op \<Rightarrow> 'v SharedMemory \<Rightarrow> bool \<times> 'v SharedMemory" where
  "apply_write E pid (PutMetadata md) s = store_metadata E pid md s"
| "apply_write E pid (PutClassification c) s = store_classification E pid c s"
| "apply_write E pid (PutExtractedData d) s = store_extracted_data E pid d s"
| "apply_write E pid (PutConversationId cid) s = store_conversation_id E pid cid s"

fun run_writes :: "env \<Rightarrow> string \<Rightarrow> 'v write_op list \<Rightarrow> 'v SharedMemory \<Rightarrow> 'v SharedMemory" where
  "run_writes E pid [] s = s"
| "run_writes E pid (w # ws) s = run_writes E pid ws (snd (apply_write E pid w s))"

text \<open>\<open>kept\<close>: the record is in the table after each write of the sequence.\<close>

fun kept :: "env \<Rightarrow> string \<Rightarrow> 'v write_op list \<Rightarrow> 'v SharedMemory \<Rightarrow> bool" where
  "kept E pid [] s = True"
| "kept E pid (w # ws) s =
     (map_of (memory (snd (apply_write E pid w s))) pid \<noteq> None \<and>
      kept E pid ws (snd (apply_write E pid w s)))"

fun runs_retention :: "'v write_op \<Rightarrow> bool" where
  "runs_retention (PutMetadata md) = True"
| "runs_retention w = False"

definition history_of :: "'v SharedMemory \<Rightarrow> string \<Rightarrow> string list" where
  "history_of s pid = (case map_of (memory s) pid of None \<Rightarrow> [] | Some e \<Rightarrow> agent_history e)"

subsection \<open>A sample environment\<close>

text \<open>
  For the concrete runs below: a clock given reading by reading, and the values of
  \<open>isoformat\<close> and \<open>fromisoformat\<close> at the instants the runs use (microseconds since
  1970-01-01: the start, 24 hours, 25 hours and 48 hours later), with one stamp that
  carries a time zone. \<open>asdict\<close> raises on a \<open>ClassificationResult\<close>, which is a pydantic
  model and no dataclass.
\<close>

definition sample_isoformat :: "int \<Rightarrow> string" where
  "sample_isoformat t =
     (if t = 0 then ''1970-01-01T00:00:00''
      else if t = 86400000000 then ''1970-01-02T00:00:00''
      else if t = 90000000000 then ''1970-01-02T01:00:00''
      else ''1970-01-03T00:00:00'')"

definition sample_fromisoformat :: "string \<Rightarrow> datetime option" where
  "sample_fromisoformat x =
     (if x = ''1970-01-01T00:00:00'' then Some (Naive 0)
      else if x = ''1970-01-01T23:59:59.999999'' then Some (Naive 86399999999)
      else if x = ''1970-01-02T00:00:00'' then Some (Naive 86400000000)
      else if x = ''1970-01-02T01:00:00'' then Some (Naive 90000000000)
      else if x = ''1970-01-03T00:00:00'' then Some (Naive 172800000000)
      else if x = ''1970-01-01T00:00:00+00:00'' then Some (Aware 0)
      else None)"

definition sample_env :: "(nat \<Rightarrow> int) \<Rightarrow> env" where
  "sample_env clock =
     \<lparr>utcnow = clock, isoformat = sample_isoformat, fromisoformat = sample_fromisoformat,
      asdict_model = (\<lambda>c. None)\<rparr>"

text \<open>A clock that stands still, and one that jumps 25 hours after its fourth reading.\<close>

definition still :: env where
  "still = sample_env (\<lambda>n. 0)"

definition next_day :: env where
  "next_day = sample_env (\<lambda>n. if n \<le> 3 then 0 else 90000000000)"

definition order_json :: ClassificationResult where
  "order_json =
     \<lparr>cr_format = ''json'', cr_intent = ''order'', cr_confidence = 8 / 10,
      cr_timestamp = ''1970-01-01T00:00:00'', cr_error = None\<rparr>"

text \<open>
  A store of capacity 1 that receives two classifications, for the ids \<open>a\<close> and \<open>b\<close>.
\<close>

definition one_classified :: "int SharedMemory" where
  "one_classified = snd (store_classification still ''a'' order_json (init still 1 24))"

definition two_classified :: "int SharedMemory" where
  "two_classified = snd (store_classification still ''b'' order_json one_classified)"

text \<open>
  A store in which the record \<open>p\<close> is given the conversation id \<open>c1\<close>, then \<open>c2\<close>, and is
  then deleted.
\<close>

definition threaded :: "int SharedMemory" where
  "threaded = snd (store_conversation_id still ''p'' ''c1'' (init still 1000 24))"

definition rethreaded :: "int SharedMemory" where
  "rethreaded = snd (store_conversation_id still ''p'' ''c2'' threaded)"

definition rethreaded_deleted :: "int SharedMemory" where
  "rethreaded_deleted = snd (clear_memory still ''p'' rethreaded)"

text \<open>
  A clock that shows the third day (48 hours after the start), and a table to sweep with
  24 hours as the age limit: one record 48 hours old and filed under a conversation, one
  whose stamp is no date, one that is a microsecond more than 24 hours old, one that is
  exactly 24 hours old, one 23 hours old, one written just now.
\<close>

definition later :: env where
  "later = sample_env (\<lambda>n. 172800000000)"

definition stale_entry :: "int MemoryEntry" where
  "stale_entry = (new_entry ''old'' ''1970-01-01T00:00:00'' ''conversation_id_stored'')
                   \<lparr>conversation_id := Some ''c1''\<rparr>"

definition corrupt_entry :: "int MemoryEntry" where
  "corrupt_entry = new_entry ''bad'' ''not a date'' ''data_extracted''"

definition fresh_entry :: "int MemoryEntry" where
  "fresh_entry = new_entry ''new'' ''1970-01-03T00:00:00'' ''data_extracted''"

definition brink_entry :: "int MemoryEntry" where
  "brink_entry = new_entry ''brink'' ''1970-01-01T23:59:59.999999'' ''data_extracted''"

definition edge_entry :: "int MemoryEntry" where
  "edge_entry = new_entry ''edge'' ''1970-01-02T00:00:00'' ''data_extracted''"

definition recent_entry :: "int MemoryEntry" where
  "recent_entry = new_entry ''recent'' ''1970-01-02T01:00:00'' ''data_extracted''"

definition aged :: "int SharedMemory" where
  "aged =
     \<lparr>memory = [(''old'', stale_entry), (''bad'', corrupt_entry), (''brink'', brink_entry),
                (''edge'', edge_entry), (''recent'', recent_entry), (''new'', fresh_entry)],
      conversation_index = [(''c1'', [''old''])], max_entries = 1000, cleanup_hours = 24,
      stats = \<lparr>total_entries = 6, active_conversations = 1,
               last_cleanup = ''1970-01-01T00:00:00'', last_update = None\<rparr>,
      ticks = 1\<rparr>"

text \<open>The same table with a record whose stamp carries a time zone.\<close>

definition zoned_entry :: "int MemoryEntry" where
  "zoned_entry = new_entry ''zoned'' ''1970-01-01T00:00:00+00:00'' ''data_extracted''"

definition zoned :: "int SharedMemory" where
  "zoned = aged\<lparr>memory := memory aged @ [(''zoned'', zoned_entry)]\<rparr>"

text \<open>
  A store of capacity 1 that holds one record, written by \<open>store_extracted_data\<close>.
\<close>

definition one_extracted :: "int SharedMemory" where
  "one_extracted = snd (store_extracted_data still ''a'' [(''total'', 7)] (init still 1 24))"

text \<open>A table of two records in a store of capacity 1.\<close>

definition crowded :: "int SharedMemory" where
  "crowded =
     \<lparr>memory = [(''x'', new_entry ''x'' ''1970-01-02T01:00:00'' ''data_extracted''),
                (''y'', new_entry ''y'' ''1970-01-01T00:00:00'' ''data_extracted'')],
      conversation_index = [], max_entries = 1, cleanup_hours = 24,
      stats = \<lparr>total_entries = 2, active_conversations = 0,
               last_cleanup = ''1970-01-01T00:00:00'', last_update = None\<rparr>,
      ticks = 1\<rparr>"

text \<open>
  A table of 102 records in a store of capacity 101; the id of the \<open>i\<close>-th record is
  \<open>i + 1\<close> strokes.
\<close>

definition numbered :: "nat \<Rightarrow> string \<times> int MemoryEntry" where
  "numbered i =
     (replicate (Suc i) CHR ''|'',
      new_entry (replicate (Suc i) CHR ''|'') ''1970-01-01T00:00:00'' ''data_extracted'')"

definition burst :: "int SharedMemory" where
  "burst =
     \<lparr>memory = map numbered [0..<102], conversation_index = [], max_entries = 101,
      cleanup_hours = 24,
      stats = \<lparr>total_entries = 102, active_conversations = 0,
               last_cleanup = ''1970-01-01T00:00:00'', last_update = None\<rparr>,
      ticks = 1\<rparr>"

text \<open>
  A store in which \<open>p\<close> and \<open>q\<close> share the conversation \<open>c1\<close>; one in which the record \<open>p\<close>
  is given the empty string as its conversation id and is then deleted; and one whose
  bucket \<open>c1\<close> lists the deleted \<open>p\<close> beside the live \<open>q\<close>.
\<close>

definition paired :: "int SharedMemory" where
  "paired = snd (store_conversation_id still ''q'' ''c1'' threaded)"

definition unnamed_thread :: "int SharedMemory" where
  "unnamed_thread = snd (store_conversation_id still ''p'' [] (init still 1000 24))"

definition unnamed_thread_deleted :: "int SharedMemory" where
  "unnamed_thread_deleted = snd (clear_memory still ''p'' unnamed_thread)"

definition half_dangling :: "int SharedMemory" where
  "half_dangling = snd (store_conversation_id still ''q'' ''c1'' rethreaded_deleted)"

text \<open>
  Stores that receive metadata for \<open>p\<close>: at once; and on the first day, with a second write
  25 hours later. And one in which \<open>p\<close> is classified on the first day and receives its
  metadata 25 hours later.
\<close>

definition noted :: "int SharedMemory" where
  "noted = snd (store_metadata still ''p'' [(''a'', 1)] (init still 1000 24))"

definition noted_day0 :: "int SharedMemory" where
  "noted_day0 = snd (store_metadata next_day ''p'' [(''a'', 1)] (init next_day 1000 24))"

definition noted_day1 :: "int SharedMemory" where
  "noted_day1 = snd (store_metadata next_day ''p'' [(''b'', 2)] noted_day0)"

definition classified_day0 :: "int SharedMemory" where
  "classified_day0 = snd (store_classification next_day ''p'' order_json (init next_day 1000 24))"

definition annotated_day1 :: "int SharedMemory" where
  "annotated_day1 = snd (store_metadata next_day ''p'' [(''file'', 1)] classified_day0)"

section \<open>Evaluating the model\<close>

lemmas run_defs =
  init_def store_classification_def store_conversation_id_def store_metadata_def
  store_extracted_data_def put_def now_def update_stats_def new_entry_def register_def
  unregister_def clear_memory_def cleanup_if_needed_def cleanup_old_entries_def
  cleanup_expired_entries_def clear_each_def timedelta_hours_def dict_update_def
  still_def next_day_def sample_env_def sample_isoformat_def sample_fromisoformat_def
  Let_def

section \<open>The invariant is kept\<close>

subsection \<open>Projections\<close>

lemma update_stats_fields [simp]:
  "memory (update_stats E s) = memory s"
  "conversation_index (update_stats E s) = conversation_index s"
  "max_entries (update_stats E s) = max_entries s"
  "cleanup_hours (update_stats E s) = cleanup_hours s"
  "last_cleanup (stats (update_stats E s)) = last_cleanup (stats s)"
  "ticks (update_stats E s) = Suc (ticks s)"
  by (simp_all add: update_stats_def now_def)

lemma wf_update_stats [simp]: "wf (update_stats E s) = wf s"
  by (simp add: wf_def)

lemma wf_ticks [simp]: "wf (s\<lparr>ticks := n\<rparr>) = wf s"
  by (simp add: wf_def)

lemma wf_stats [simp]: "wf (s\<lparr>stats := st\<rparr>) = wf s"
  by (simp add: wf_def)

lemma set_delete: "set (AList.delete k al) = {x \<in> set al. fst x \<noteq> k}"
  by (auto simp: AList.delete_eq)

lemma set_update_subset: "set (AList.update k v al) \<subseteq> insert (k, v) (set al)"
  by (induction al) auto

lemma remove1_NilD: "remove1 pid l = [] \<Longrightarrow> q \<in> set l \<Longrightarrow> q = pid"
  by (metis in_set_remove1 empty_iff list.set(1))

subsection \<open>Deleting one record\<close>

lemma clear_memory_unknown:
  "map_of (memory s) pid = None \<Longrightarrow> clear_memory E pid s = (False, s)"
  by (simp add: clear_memory_def)

lemma linked_unregister:
  assumes "linked q e idx" "q \<noteq> pid" "unregister pid cid idx = Inr idx'"
  shows "linked q e idx'"
  using assms
  by (auto simp: linked_def unregister_def Let_def AList.update_conv' AList.delete_conv'
      dest: remove1_NilD split: option.splits if_splits)

lemma distinct_unregister:
  "distinct (map fst idx) \<Longrightarrow> unregister pid cid idx = Inr idx' \<Longrightarrow> distinct (map fst idx')"
  by (auto simp: unregister_def Let_def AList.distinct_update AList.distinct_delete
      split: option.splits if_splits)

lemma buckets_unregister:
  assumes "list_all (\<lambda>b. distinct (snd b)) idx" "unregister pid cid idx = Inr idx'"
  shows "list_all (\<lambda>b. distinct (snd b)) idx'"
proof -
  have "distinct (snd b)" if "b \<in> set idx'" for b
  proof -
    from assms(2) obtain l where l: "map_of idx cid = Some l"
      and idx': "idx' = AList.delete cid idx \<or>
                 idx' = AList.update cid (if pid \<in> set l then remove1 pid l else l) idx"
      by (auto simp: unregister_def Let_def split: option.splits if_splits)
    from l have "(cid, l) \<in> set idx" by (rule map_of_SomeD)
    with assms(1) have dl: "distinct l" by (auto simp: list_all_iff)
    from idx' that set_update_subset [of cid "if pid \<in> set l then remove1 pid l else l" idx]
    have "b \<in> set idx \<or> b = (cid, if pid \<in> set l then remove1 pid l else l)"
      by (auto simp: set_delete)
    with assms(1) dl show ?thesis by (auto simp: list_all_iff)
  qed
  then show ?thesis by (simp add: list_all_iff)
qed

lemma clear_memory_known:
  assumes "wf s" "map_of (memory s) pid = Some e"
  shows "\<exists>idx. clear_memory E pid s =
           (True, update_stats E (s\<lparr>conversation_index := idx,
                                     memory := AList.delete pid (memory s)\<rparr>)) \<and>
         (case conversation_id e of None \<Rightarrow> idx = conversation_index s
          | Some cid \<Rightarrow> if cid \<noteq> [] then unregister pid cid (conversation_index s) = Inr idx
                       else idx = conversation_index s)"
proof -
  from assms have "(pid, e) \<in> set (memory s)" by (simp add: map_of_SomeD)
  with assms(1) have lk: "linked pid e (conversation_index s)"
    by (auto simp: wf_def list_all_iff)
  show ?thesis
  proof (cases "conversation_id e")
    case None
    then show ?thesis using assms(2) by (simp add: clear_memory_def)
  next
    case (Some cid)
    show ?thesis
    proof (cases "cid = []")
      case True
      then show ?thesis using assms(2) Some by (simp add: clear_memory_def)
    next
      case False
      with lk Some obtain l where "map_of (conversation_index s) cid = Some l"
        by (auto simp: linked_def split: option.splits)
      then obtain idx where "unregister pid cid (conversation_index s) = Inr idx"
        by (cases "(if pid \<in> set l then remove1 pid l else l) = []")
           (simp_all add: unregister_def Let_def)
      then show ?thesis using assms(2) Some False by (simp add: clear_memory_def)
    qed
  qed
qed

lemma clear_memory_frame [simp]:
  "max_entries (snd (clear_memory E pid s)) = max_entries s"
  "cleanup_hours (snd (clear_memory E pid s)) = cleanup_hours s"
  "last_cleanup (stats (snd (clear_memory E pid s))) = last_cleanup (stats s)"
  by (simp_all add: clear_memory_def split: option.splits sum.splits)


lemma clear_memory_survivor:
  "map_of (memory (snd (clear_memory E q s))) k = Some e \<Longrightarrow> map_of (memory s) k = Some e"
  by (auto simp: clear_memory_def AList.delete_conv' split: option.splits sum.splits if_splits)

lemma clear_memory_memory:
  assumes "wf s"
  shows "memory (snd (clear_memory E pid s)) = AList.delete pid (memory s)"
proof (cases "map_of (memory s) pid")
  case None
  then have "pid \<notin> fst ` set (memory s)" by (simp add: map_of_eq_None_iff)
  with None show ?thesis by (simp add: clear_memory_unknown)
next
  case (Some e)
  from clear_memory_known [OF assms Some, of E] show ?thesis by auto
qed

lemma wf_clear_memory:
  assumes "wf s"
  shows "wf (snd (clear_memory E pid s))"
proof (cases "map_of (memory s) pid")
  case None
  with assms show ?thesis by (simp add: clear_memory_unknown)
next
  case (Some e)
  from clear_memory_known [OF assms Some, of E] obtain idx where
    res: "clear_memory E pid s =
            (True, update_stats E (s\<lparr>conversation_index := idx,
                                      memory := AList.delete pid (memory s)\<rparr>))"
    and idx: "idx = conversation_index s \<or>
              (\<exists>cid. unregister pid cid (conversation_index s) = Inr idx)"
    by (auto split: option.splits if_splits)
  have d1: "distinct (map fst (AList.delete pid (memory s)))"
    using assms by (simp add: wf_def AList.distinct_delete)
  have d2: "distinct (map fst idx)"
    using assms idx by (auto simp: wf_def dest: distinct_unregister)
  have d3: "list_all (\<lambda>b. distinct (snd b)) idx"
    using assms idx by (auto simp: wf_def dest: buckets_unregister)
  have l: "linked (fst x) (snd x) idx \<and> processing_id (snd x) = fst x"
    if "x \<in> set (AList.delete pid (memory s))" for x
  proof -
    from that have x: "x \<in> set (memory s)" "fst x \<noteq> pid" by (auto simp: set_delete)
    with assms have "linked (fst x) (snd x) (conversation_index s)"
      and "processing_id (snd x) = fst x"
      by (auto simp: wf_def list_all_iff)
    with idx x(2) show ?thesis by (auto dest: linked_unregister)
  qed
  show ?thesis using d1 d2 d3 l by (simp add: res wf_def list_all_iff)
qed

subsection \<open>Deleting a list of records\<close>

lemma clear_each_Nil [simp]: "clear_each E [] s = s"
  by (simp add: clear_each_def)

lemma clear_each_Cons [simp]:
  "clear_each E (pid # ids) s = clear_each E ids (snd (clear_memory E pid s))"
  by (simp add: clear_each_def)

lemma clear_each_frame [simp]:
  "max_entries (clear_each E ids s) = max_entries s"
  "cleanup_hours (clear_each E ids s) = cleanup_hours s"
  "last_cleanup (stats (clear_each E ids s)) = last_cleanup (stats s)"
  by (induction ids arbitrary: s) simp_all


lemma clear_each_survivor:
  "map_of (memory (clear_each E ids s)) k = Some e \<Longrightarrow> map_of (memory s) k = Some e"
  by (induction ids arbitrary: s) (auto dest: clear_memory_survivor)

lemma wf_clear_each: "wf s \<Longrightarrow> wf (clear_each E ids s)"
  by (induction ids arbitrary: s) (simp_all add: wf_clear_memory)

lemma clear_each_memory:
  "wf s \<Longrightarrow> memory (clear_each E ids s) = filter (\<lambda>x. fst x \<notin> set ids) (memory s)"
proof (induction ids arbitrary: s)
  case Nil
  then show ?case by simp
next
  case (Cons pid ids)
  have "memory (clear_each E (pid # ids) s) =
          filter (\<lambda>x. fst x \<notin> set ids) (AList.delete pid (memory s))"
    using Cons by (simp add: wf_clear_memory clear_memory_memory)
  also have "\<dots> = filter (\<lambda>x. fst x \<notin> set (pid # ids)) (memory s)"
    by (auto simp: AList.delete_eq intro: filter_cong)
  finally show ?case .
qed

lemma length_filter_keys:
  assumes "distinct (map fst xs)" "distinct ks" "set ks \<subseteq> fst ` set xs"
  shows "length (filter (\<lambda>x. fst x \<notin> set ks) xs) = length xs - length ks"
proof -
  let ?in = "filter (\<lambda>x. fst x \<in> set ks) xs"
  have "map fst ?in = filter (\<lambda>k. k \<in> set ks) (map fst xs)"
    by (simp add: filter_map comp_def)
  moreover have "distinct (filter (\<lambda>k. k \<in> set ks) (map fst xs))"
    using assms(1) by simp
  moreover have "set (filter (\<lambda>k. k \<in> set ks) (map fst xs)) = set ks"
    using assms(3) by auto
  ultimately have "length ?in = length ks"
    by (metis assms(2) distinct_card length_map)
  moreover have "length ?in + length (filter (\<lambda>x. fst x \<notin> set ks) xs) = length xs"
    by (rule sum_length_filter_compl)
  ultimately show ?thesis by simp
qed

subsection \<open>The retention pass\<close>

lemma cleanup_old_entries_frame [simp]:
  "max_entries (cleanup_old_entries E s) = max_entries s"
  "cleanup_hours (cleanup_old_entries E s) = cleanup_hours s"
  "last_cleanup (stats (cleanup_old_entries E s)) = last_cleanup (stats s)"
  by (simp_all add: cleanup_old_entries_def Let_def)

lemma wf_cleanup_old_entries: "wf s \<Longrightarrow> wf (cleanup_old_entries E s)"
  by (simp add: cleanup_old_entries_def Let_def wf_clear_each)

lemma cleanup_old_entries_survivor:
  "map_of (memory (cleanup_old_entries E s)) k = Some e \<Longrightarrow> map_of (memory s) k = Some e"
  by (auto simp: cleanup_old_entries_def Let_def dest: clear_each_survivor split: if_splits)


lemma collect_expired_aware:
  "list_ex (\<lambda>x. zone_aware E (snd x)) mem \<Longrightarrow> collect_expired E c mem = Inl TypeError"
proof (induction mem)
  case Nil
  then show ?case by simp
next
  case (Cons x mem)
  obtain pid e where x: "x = (pid, e)" by (cases x)
  show ?case
  proof (cases "zone_aware E e")
    case True
    then show ?thesis by (simp add: x zone_aware_def split: option.splits datetime.splits)
  next
    case False
    with Cons x have "collect_expired E c mem = Inl TypeError" by simp
    then show ?thesis by (simp add: x split: option.splits datetime.splits)
  qed
qed

lemma collect_expired_error: "collect_expired E c mem = Inl e \<Longrightarrow> e = TypeError"
proof (induction mem)
  case Nil
  then show ?case by simp
next
  case (Cons x mem)
  obtain pid en where x: "x = (pid, en)" by (cases x)
  from Cons show ?case
    by (cases "collect_expired E c mem")
       (auto simp: x split: option.splits datetime.splits if_splits)
qed

text \<open>The two ways \<open>_cleanup_expired_entries\<close> ends.\<close>

lemma cleanup_expired_entries_raises:
  assumes "collect_expired E (utcnow E (ticks s) - timedelta_hours (cleanup_hours s)) (memory s) = Inl e"
  shows "cleanup_expired_entries E s = (Some e, s\<lparr>ticks := Suc (ticks s)\<rparr>)"
  using assms by (simp add: cleanup_expired_entries_def now_def Let_def)

lemma cleanup_expired_entries_returns:
  assumes "collect_expired E (utcnow E (ticks s) - timedelta_hours (cleanup_hours s)) (memory s) = Inr ids"
  shows "fst (cleanup_expired_entries E s) = None"
    and "memory (snd (cleanup_expired_entries E s)) =
           memory (clear_each E ids (s\<lparr>ticks := Suc (ticks s)\<rparr>))"
    and "conversation_index (snd (cleanup_expired_entries E s)) =
           conversation_index (clear_each E ids (s\<lparr>ticks := Suc (ticks s)\<rparr>))"
    and "last_cleanup (stats (snd (cleanup_expired_entries E s))) =
           isoformat E (utcnow E (ticks (clear_each E ids (s\<lparr>ticks := Suc (ticks s)\<rparr>))))"
    and "ticks (snd (cleanup_expired_entries E s)) =
           Suc (ticks (clear_each E ids (s\<lparr>ticks := Suc (ticks s)\<rparr>)))"
  using assms by (simp_all add: cleanup_expired_entries_def now_def Let_def)

lemma cleanup_expired_entries_frame [simp]:
  "max_entries (snd (cleanup_expired_entries E s)) = max_entries s"
  "cleanup_hours (snd (cleanup_expired_entries E s)) = cleanup_hours s"
  by (simp_all add: cleanup_expired_entries_def now_def Let_def split: sum.splits)

lemma wf_cleanup_expired_entries: "wf s \<Longrightarrow> wf (snd (cleanup_expired_entries E s))"
proof -
  assume w: "wf s"
  have "wf (snd (case r of
                   Inl e \<Rightarrow> (Some e, s\<lparr>ticks := Suc (ticks s)\<rparr>)
                 | Inr ids \<Rightarrow>
                     (None, (clear_each E ids (s\<lparr>ticks := Suc (ticks s)\<rparr>))
                        \<lparr>ticks := n ids, stats := st ids\<rparr>)))"
    for r :: "error + string list" and n st
    using w by (cases r) (simp_all add: wf_clear_each)
  then show ?thesis
    by (simp add: cleanup_expired_entries_def now_def Let_def split: sum.splits)
       (simp add: w wf_clear_each)
qed

lemma cleanup_expired_entries_survivor:
  "map_of (memory (snd (cleanup_expired_entries E s))) k = Some e \<Longrightarrow>
   map_of (memory s) k = Some e"
  by (auto simp: cleanup_expired_entries_def now_def Let_def dest: clear_each_survivor
      split: sum.splits)

lemma wf_cleanup_if_needed: "wf s \<Longrightarrow> wf (snd (cleanup_if_needed E s))"
  by (simp add: cleanup_if_needed_def now_def Let_def wf_cleanup_old_entries
      wf_cleanup_expired_entries split: option.splits datetime.splits)

lemma cleanup_if_needed_survivor:
  "map_of (memory (snd (cleanup_if_needed E s))) k = Some e \<Longrightarrow> map_of (memory s) k = Some e"
  by (auto simp: cleanup_if_needed_def now_def Let_def
      dest!: cleanup_expired_entries_survivor cleanup_old_entries_survivor
      split: option.splits datetime.splits if_splits)


subsection \<open>The writes\<close>

lemma put_frame [simp]:
  "conversation_index (put E pid cr ch s) = conversation_index s"
  "max_entries (put E pid cr ch s) = max_entries s"
  "cleanup_hours (put E pid cr ch s) = cleanup_hours s"
  by (simp_all add: put_def now_def split: option.splits)

lemma put_lookup:
  "map_of (memory (put E pid cr ch s)) =
     (map_of (memory s))(pid \<mapsto>
        (case map_of (memory s) pid of
           None \<Rightarrow> cr (isoformat E (utcnow E (ticks s)))
         | Some e \<Rightarrow> ch e))"
  by (simp add: put_def now_def AList.update_conv' split: option.splits)

lemma put_keys:
  "fst ` set (memory (put E pid cr ch s)) = insert pid (fst ` set (memory s))"
  by (simp add: put_def now_def AList.dom_update split: option.splits)

lemma length_update:
  "length (AList.update k v al) = (if k \<in> fst ` set al then length al else Suc (length al))"
  by (induction al) auto

lemma put_length:
  "length (memory (put E pid cr ch s)) =
     (if map_of (memory s) pid = None then Suc (length (memory s)) else length (memory s))"
  by (auto simp: put_def now_def length_update map_of_eq_None_iff split: option.splits)

lemma wf_put:
  assumes "wf s"
    and "\<And>ts. processing_id (cr ts) = pid \<and> linked pid (cr ts) (conversation_index s)"
    and "\<And>e. processing_id e = pid \<Longrightarrow> linked pid e (conversation_index s) \<Longrightarrow>
           processing_id (ch e) = pid \<and> linked pid (ch e) (conversation_index s)"
  shows "wf (put E pid cr ch s)"
proof -
  obtain v where mem: "memory (put E pid cr ch s) = AList.update pid v (memory s)"
    and v: "processing_id v = pid \<and> linked pid v (conversation_index s)"
  proof (cases "map_of (memory s) pid")
    case None
    then show ?thesis using that [of "cr (isoformat E (utcnow E (ticks s)))"] assms(2)
      by (simp add: put_def now_def)
  next
    case (Some e)
    then have "(pid, e) \<in> set (memory s)" by (rule map_of_SomeD)
    with assms(1) have "processing_id e = pid" "linked pid e (conversation_index s)"
      by (auto simp: wf_def list_all_iff)
    with Some show ?thesis using that [of "ch e"] assms(3) by (simp add: put_def)
  qed
  have "processing_id (snd x) = fst x \<and> linked (fst x) (snd x) (conversation_index s)"
    if "x \<in> set (AList.update pid v (memory s))" for x
  proof -
    from that set_update_subset [of pid v "memory s"]
    have "x = (pid, v) \<or> x \<in> set (memory s)" by auto
    with assms(1) v show ?thesis by (auto simp: wf_def list_all_iff)
  qed
  with assms(1) show ?thesis
    by (simp add: wf_def list_all_iff mem AList.distinct_update)
qed

lemma linked_new_entry [simp]:
  "linked pid (new_entry pid ts tag) idx"
  "processing_id (new_entry pid ts tag) = pid"
  by (simp_all add: linked_def new_entry_def)

lemma linked_cong_conversation:
  "conversation_id e' = conversation_id e \<Longrightarrow> linked pid e' idx = linked pid e idx"
  by (simp add: linked_def)

lemma wf_store_classification: "wf s \<Longrightarrow> wf (snd (store_classification E pid c s))"
  by (auto simp: store_classification_def Let_def linked_def new_entry_def intro!: wf_put)

lemma wf_store_extracted_data: "wf s \<Longrightarrow> wf (snd (store_extracted_data E pid d s))"
  by (auto simp: store_extracted_data_def Let_def linked_def new_entry_def intro!: wf_put)

lemma store_metadata_state:
  "snd (store_metadata E pid md s) =
     snd (cleanup_if_needed E (update_stats E
       (put E pid
          (\<lambda>ts. (new_entry pid ts ''metadata_stored'')\<lparr>metadata := md\<rparr>)
          (\<lambda>e. e\<lparr>metadata := dict_update (metadata e) md,
                 agent_history := agent_history e @ [''metadata_updated'']\<rparr>) s)))"
  by (simp add: store_metadata_def Let_def split: prod.splits option.splits)

lemma wf_store_metadata: "wf s \<Longrightarrow> wf (snd (store_metadata E pid md s))"
proof -
  assume "wf s"
  then have "wf (put E pid
                 (\<lambda>ts. (new_entry pid ts ''metadata_stored'')\<lparr>metadata := md\<rparr>)
                 (\<lambda>e. e\<lparr>metadata := dict_update (metadata e) md,
                        agent_history := agent_history e @ [''metadata_updated'']\<rparr>) s)"
    by (auto simp: linked_def new_entry_def intro!: wf_put)
  then show ?thesis
    by (simp add: store_metadata_state wf_cleanup_if_needed)
qed

lemma register_lookup:
  "\<exists>l. map_of (register pid cid idx) cid = Some l \<and> pid \<in> set l"
  by (auto simp: register_def Let_def AList.update_conv' split: option.splits)

lemma register_mono:
  "map_of idx c = Some l \<Longrightarrow> q \<in> set l \<Longrightarrow>
   \<exists>l'. map_of (register pid cid idx) c = Some l' \<and> q \<in> set l'"
  by (auto simp: register_def Let_def AList.update_conv' split: option.splits)

lemma distinct_register: "distinct (map fst idx) \<Longrightarrow> distinct (map fst (register pid cid idx))"
  by (simp add: register_def Let_def AList.distinct_update)

lemma list_all_update:
  "list_all P al \<Longrightarrow> P (k, v) \<Longrightarrow> list_all P (AList.update k v al)"
  using set_update_subset [of k v al] by (auto simp: list_all_iff)

lemma buckets_register:
  assumes "list_all (\<lambda>b. distinct (snd b)) idx"
  shows "list_all (\<lambda>b. distinct (snd b)) (register pid cid idx)"
proof (cases "map_of idx cid")
  case None
  then have "register pid cid idx = AList.update cid [pid] (AList.update cid [] idx)"
    by (simp add: register_def Let_def AList.update_conv')
  with assms show ?thesis by (simp add: list_all_update)
next
  case (Some l)
  then have "(cid, l) \<in> set idx" by (rule map_of_SomeD)
  with assms have "distinct l" by (auto simp: list_all_iff)
  moreover from Some have "register pid cid idx =
      (if pid \<notin> set l then AList.update cid (l @ [pid]) idx else idx)"
    by (simp add: register_def Let_def)
  ultimately show ?thesis using assms by (simp add: list_all_update)
qed

lemma linked_register: "linked q e idx \<Longrightarrow> linked q e (register pid cid idx)"
  by (auto simp: linked_def split: option.splits dest: register_mono [where pid = pid and cid = cid])

lemma wf_store_conversation_id:
  assumes "wf s"
  shows "wf (snd (store_conversation_id E pid cid s))"
proof -
  let ?cr = "\<lambda>ts. (new_entry pid ts ''conversation_id_stored'')\<lparr>conversation_id := Some cid\<rparr>"
  let ?ch = "\<lambda>e::'a MemoryEntry. e\<lparr>conversation_id := Some cid,
                 agent_history := agent_history e @ [''conversation_id_stored'']\<rparr>"
  let ?idx = "register pid cid (conversation_index s)"
  have lk: "linked pid e ?idx" if "conversation_id e = Some cid" for e :: "'a MemoryEntry"
    using that register_lookup [of pid cid "conversation_index s"]
    by (auto simp: linked_def)
  have "wf (s\<lparr>conversation_index := ?idx\<rparr>)"
    using assms buckets_register [of "conversation_index s" pid cid]
    by (auto simp: wf_def list_all_iff distinct_register linked_register)
  then have "wf (put E pid ?cr ?ch (s\<lparr>conversation_index := ?idx\<rparr>))"
    by (intro wf_put) (auto simp: lk new_entry_def)
  moreover have "put E pid ?cr ?ch (s\<lparr>conversation_index := ?idx\<rparr>) =
                 (put E pid ?cr ?ch s)\<lparr>conversation_index := ?idx\<rparr>"
    by (simp add: put_def now_def split: option.splits)
  ultimately show ?thesis by (simp add: store_conversation_id_def Let_def)
qed

lemma wf_init: "wf (init E me ch)"
  by (simp add: wf_def init_def)

lemma wf_clear_all_memory: "wf (snd (clear_all_memory E s))"
  by (simp add: clear_all_memory_def wf_def)

lemma reachable_wf: "reachable E s \<Longrightarrow> wf s"
  by (induction rule: reachable.induct)
     (simp_all add: wf_init wf_store_metadata wf_store_classification wf_store_extracted_data
        wf_store_conversation_id wf_clear_memory wf_clear_all_memory)

section \<open>Eviction by capacity\<close>

lemma distinct_keys_sort:
  "distinct (map fst xs) \<Longrightarrow> distinct (map fst (sort_key f xs))"
  by (simp add: distinct_map)

lemma same_key_same_entry:
  "distinct (map fst xs) \<Longrightarrow> x \<in> set xs \<Longrightarrow> y \<in> set xs \<Longrightarrow> fst x = fst y \<Longrightarrow> x = y"
  by (meson distinct_map inj_onD)

lemma cleanup_old_entries_memory:
  assumes "wf s" and "max_entries s < int (length (memory s))"
  defines "n \<equiv> nat (min (int (length (memory s)) - max_entries s + 100)
                         (int (length (memory s))))"
  defines "S \<equiv> sort_key (\<lambda>x. timestamp (snd x)) (memory s)"
  shows "memory (cleanup_old_entries E s) = filter (\<lambda>x. x \<notin> set (take n S)) (memory s)"
    and "length (memory (cleanup_old_entries E s)) = length (memory s) - n"
proof -
  have d: "distinct (map fst (memory s))" using assms(1) by (simp add: wf_def)
  have sub: "set (take n S) \<subseteq> set (memory s)"
    using set_take_subset [of n S] by (simp add: S_def)
  have mem: "memory (cleanup_old_entries E s) =
               filter (\<lambda>x. fst x \<notin> set (map fst (take n S))) (memory s)"
    using assms(1,2) by (simp add: cleanup_old_entries_def Let_def clear_each_memory n_def S_def)
  have "(fst x \<notin> set (map fst (take n S))) = (x \<notin> set (take n S))" if "x \<in> set (memory s)" for x
  proof -
    have "x \<in> set (take n S)" if "y \<in> set (take n S)" "fst y = fst x" for y
    proof -
      from that(1) sub have "y \<in> set (memory s)" by blast
      with d \<open>x \<in> set (memory s)\<close> that(2) have "y = x" by (intro same_key_same_entry)
      with that(1) show ?thesis by simp
    qed
    then have "fst x \<in> set (map fst (take n S)) \<Longrightarrow> x \<in> set (take n S)"
      by (metis (no_types, lifting) imageE list.set_map)
    moreover have "x \<in> set (take n S) \<Longrightarrow> fst x \<in> set (map fst (take n S))"
      by simp
    ultimately show ?thesis by blast
  qed
  then show "memory (cleanup_old_entries E s) = filter (\<lambda>x. x \<notin> set (take n S)) (memory s)"
    unfolding mem by (intro filter_cong) auto
  have "distinct (map fst (take n S))"
    using d by (simp add: S_def take_map [symmetric] distinct_keys_sort del: take_map)
  moreover have "set (map fst (take n S)) \<subseteq> fst ` set (memory s)"
    using sub by auto
  ultimately have "length (memory (cleanup_old_entries E s)) =
                     length (memory s) - length (map fst (take n S))"
    unfolding mem using d by (intro length_filter_keys)
  moreover have "length (take n S) = n" by (simp add: S_def n_def)
  ultimately show "length (memory (cleanup_old_entries E s)) = length (memory s) - n" by simp
qed

lemma sorted_take_le_rest:
  assumes "x \<in> set (take n (sort_key f xs))" "y \<in> set xs" "y \<notin> set (take n (sort_key f xs))"
  shows "f x \<le> f y"
proof -
  let ?S = "sort_key f xs"
  have "set ?S = set (take n ?S) \<union> set (drop n ?S)"
    by (metis append_take_drop_id set_append)
  with assms(2,3) have y: "y \<in> set (drop n ?S)" by auto
  have "sorted (map f (take n ?S) @ map f (drop n ?S))"
    by (metis append_take_drop_id map_append sorted_sort_key)
  with assms(1) y show ?thesis by (auto simp: sorted_append)
qed

text \<open>
  C6. In a store that satisfies the invariant, when the table holds more than
  \<open>max_entries\<close> records, \<open>_cleanup_old_entries\<close> evicts exactly the records that come
  first when the table is sorted by its creation stamps (a stable sort, so records with
  equal stamps go in insertion order): every evicted record is at least as old as every
  record that stays. It does not stop at \<open>max_entries\<close>: the table is left with
  \<open>max_entries - 100\<close> records, and with none when that number is negative.
\<close>

theorem capacity_eviction_takes_oldest:
  assumes "wf s" and "max_entries s < int (length (memory s))"
  shows "memory (cleanup_old_entries E s) =
           filter (\<lambda>x. x \<notin> set (take (nat (min (int (length (memory s)) - max_entries s + 100)
                                               (int (length (memory s)))))
                                    (sort_key (\<lambda>x. timestamp (snd x)) (memory s))))
             (memory s) \<and>
         (\<forall>x \<in> set (memory s) - set (memory (cleanup_old_entries E s)).
            \<forall>y \<in> set (memory (cleanup_old_entries E s)).
              timestamp (snd x) \<le> timestamp (snd y)) \<and>
         int (length (memory (cleanup_old_entries E s))) = max 0 (max_entries s - 100)"
proof -
  let ?n = "nat (min (int (length (memory s)) - max_entries s + 100) (int (length (memory s))))"
  let ?S = "sort_key (\<lambda>x. timestamp (snd x)) (memory s)"
  note m = cleanup_old_entries_memory [OF assms, of E]
  have "timestamp (snd x) \<le> timestamp (snd y)"
    if "x \<in> set (memory s) - set (memory (cleanup_old_entries E s))"
      and "y \<in> set (memory (cleanup_old_entries E s))" for x y
  proof -
    from that have "x \<in> set (take ?n ?S)" "y \<in> set (memory s)" "y \<notin> set (take ?n ?S)"
      by (auto simp: m(1))
    then show ?thesis by (rule sorted_take_le_rest)
  qed
  moreover have "int (length (memory (cleanup_old_entries E s))) = max 0 (max_entries s - 100)"
    using assms(2) by (simp add: m(2))
  ultimately show ?thesis using m(1) by blast
qed

lemma wf_burst: "wf burst"
proof -
  have "inj_on (fst \<circ> numbered) A" for A :: "nat set"
    by (rule inj_onI) (simp add: numbered_def)
  then have "distinct (map (fst \<circ> numbered) [0..<102])"
    by (simp add: distinct_map)
  then have "distinct (map fst (memory burst))"
    by (simp add: burst_def)
  moreover have "list_all (\<lambda>x. processing_id (snd x) = fst x \<and> linked (fst x) (snd x) [])
                   (map numbered [0..<102])"
    by (simp add: list_all_iff numbered_def new_entry_def linked_def)
  ultimately show ?thesis by (simp add: wf_def burst_def)
qed

theorem capacity_eviction_takes_oldest_witness:
  "wf burst \<and> max_entries burst < int (length (memory burst)) \<and>
   memory (cleanup_old_entries still burst) =
     filter (\<lambda>x. x \<notin> set (take 101 (sort_key (\<lambda>x. timestamp (snd x)) (memory burst))))
       (memory burst) \<and>
   int (length (memory (cleanup_old_entries still burst))) = 1"
proof -
  have over: "max_entries burst < int (length (memory burst))"
    by (simp add: burst_def)
  have n: "nat (min (int (length (memory burst)) - max_entries burst + 100)
                    (int (length (memory burst)))) = 101"
    by (simp add: burst_def)
  have m: "max 0 (max_entries burst - 100) = 1"
    by (simp add: burst_def)
  from capacity_eviction_takes_oldest [OF wf_burst over, of still]
  show ?thesis using wf_burst over unfolding n m by blast
qed

lemma cleanup_expired_entries_empty:
  "memory s = [] \<Longrightarrow> memory (snd (cleanup_expired_entries E s)) = []"
  by (simp add: cleanup_expired_entries_def now_def Let_def)

lemma cleanup_if_needed_over_capacity:
  assumes "wf s" "max_entries s < int (length (memory s))" "max_entries s \<le> 100"
  shows "memory (snd (cleanup_if_needed E s)) = []"
proof -
  have "length (memory (cleanup_old_entries E s)) = 0"
    using assms by (simp add: cleanup_old_entries_memory(2))
  then have "memory (cleanup_old_entries E s) = []" by simp
  then show ?thesis using assms(2)
    by (simp add: cleanup_if_needed_def Let_def now_def cleanup_expired_entries_empty
        split: option.splits datetime.splits)
qed

text \<open>
  The buffer of the capacity eviction is the constant 100, whatever \<open>max_entries\<close> is: in
  a store that satisfies the invariant, on a table of \<open>size > max_entries\<close> records
  \<open>_cleanup_old_entries\<close> removes exactly \<open>min (size - max_entries + 100) size\<close> records,
  the first ones in the order of creation stamps, and leaves \<open>max 0 (max_entries - 100)\<close>.
  With \<open>max_entries \<le> 100\<close> the table is emptied, so a \<open>store_metadata\<close> that takes the
  table over its capacity leaves no record at all, not even the one it wrote.
\<close>

lemma fixed_buffer_eviction:
  assumes "wf s"
  shows "(max_entries s < int (length (memory s)) \<longrightarrow>
            length (memory s) - length (memory (cleanup_old_entries E s)) =
              nat (min (int (length (memory s)) - max_entries s + 100) (int (length (memory s)))) \<and>
            memory (cleanup_old_entries E s) =
              filter (\<lambda>x. x \<notin> set (take (nat (min (int (length (memory s)) - max_entries s + 100)
                                                  (int (length (memory s)))))
                                       (sort_key (\<lambda>x. timestamp (snd x)) (memory s))))
                (memory s) \<and>
            int (length (memory (cleanup_old_entries E s))) = max 0 (max_entries s - 100) \<and>
            (max_entries s \<le> 100 \<longrightarrow> memory (cleanup_old_entries E s) = [])) \<and>
         (max_entries s \<le> 100 \<longrightarrow>
          max_entries s < int (length (memory s)) + (if map_of (memory s) pid = None then 1 else 0) \<longrightarrow>
            memory (snd (store_metadata E pid md s)) = [])"
proof (intro conjI impI)
  assume over: "max_entries s < int (length (memory s))"
  note m = cleanup_old_entries_memory [OF assms over, of E]
  show "length (memory s) - length (memory (cleanup_old_entries E s)) =
          nat (min (int (length (memory s)) - max_entries s + 100) (int (length (memory s))))"
    using over by (simp add: m(2))
  show "memory (cleanup_old_entries E s) =
          filter (\<lambda>x. x \<notin> set (take (nat (min (int (length (memory s)) - max_entries s + 100)
                                              (int (length (memory s)))))
                                   (sort_key (\<lambda>x. timestamp (snd x)) (memory s))))
            (memory s)"
    by (rule m(1))
  show "int (length (memory (cleanup_old_entries E s))) = max 0 (max_entries s - 100)"
    using over by (simp add: m(2))
  show "memory (cleanup_old_entries E s) = []" if "max_entries s \<le> 100"
  proof -
    have "length (memory (cleanup_old_entries E s)) = 0" using that over by (simp add: m(2))
    then show ?thesis by simp
  qed
next
  let ?s1 = "put E pid
               (\<lambda>ts. (new_entry pid ts ''metadata_stored'')\<lparr>metadata := md\<rparr>)
               (\<lambda>e. e\<lparr>metadata := dict_update (metadata e) md,
                      agent_history := agent_history e @ [''metadata_updated'']\<rparr>) s"
  assume small: "max_entries s \<le> 100"
    and over: "max_entries s < int (length (memory s)) + (if map_of (memory s) pid = None then 1 else 0)"
  have "wf ?s1" using assms by (auto simp: linked_def new_entry_def intro!: wf_put)
  then have "wf (update_stats E ?s1)" by simp
  moreover have "max_entries (update_stats E ?s1) < int (length (memory (update_stats E ?s1)))"
    using over by (simp add: put_length split: if_splits)
  moreover have "max_entries (update_stats E ?s1) \<le> 100" using small by simp
  ultimately have "memory (snd (cleanup_if_needed E (update_stats E ?s1))) = []"
    by (rule cleanup_if_needed_over_capacity)
  then show "memory (snd (store_metadata E pid md s)) = []"
    by (simp add: store_metadata_state)
qed

lemma wf_crowded: "wf crowded"
  by (simp add: wf_def crowded_def new_entry_def linked_def)

lemma fixed_buffer_eviction_example:
  "wf crowded \<and> max_entries crowded < int (length (memory crowded)) \<and>
   max_entries crowded \<le> 100 \<and>
   length (memory crowded) - length (memory (cleanup_old_entries still crowded)) = 2 \<and>
   memory (cleanup_old_entries still crowded) = [] \<and>
   memory (snd (store_metadata still ''z'' [(''file'', 1)] crowded)) = []"
proof -
  have over: "max_entries crowded < int (length (memory crowded))"
    and small: "max_entries crowded \<le> 100"
    and n: "nat (min (int (length (memory crowded)) - max_entries crowded + 100)
                     (int (length (memory crowded)))) = 2"
    and over': "max_entries crowded <
                  int (length (memory crowded)) + (if map_of (memory crowded) ''z'' = None then 1 else 0)"
    by (simp_all add: crowded_def)
  from fixed_buffer_eviction [OF wf_crowded, of still "''z''" "[(''file'', 1)]"]
  show ?thesis using wf_crowded over small over' unfolding n by blast
qed

text \<open>
  C9. The claim has the eviction follow whichever write takes the table over its capacity:
  with \<open>max_entries \<le> 100\<close> such a write is to leave the table empty. The eviction itself
  does what the claim says (the lemma above), but only \<open>store_metadata\<close> calls it. In a
  store of capacity 1 that holds one record, a second record written by
  \<open>store_extracted_data\<close> or by \<open>store_conversation_id\<close> takes the table to two records
  and both stay; the same record written by \<open>store_metadata\<close> empties the table.
\<close>

theorem over_capacity_write_without_eviction:
  "max_entries one_extracted = 1 \<and>
   map fst (memory one_extracted) = [''a''] \<and>
   fst (store_extracted_data still ''b'' [(''total'', 9)] one_extracted) \<and>
   map fst (memory (snd (store_extracted_data still ''b'' [(''total'', 9)] one_extracted))) =
     [''a'', ''b''] \<and>
   fst (store_conversation_id still ''b'' ''c1'' one_extracted) \<and>
   map fst (memory (snd (store_conversation_id still ''b'' ''c1'' one_extracted))) =
     [''a'', ''b''] \<and>
   fst (store_metadata still ''b'' [(''file'', 1)] one_extracted) \<and>
   memory (snd (store_metadata still ''b'' [(''file'', 1)] one_extracted)) = []"
  by (simp add: one_extracted_def run_defs)

section \<open>Eviction by age\<close>









subsection \<open>Stamps with a time zone\<close>

text \<open>
  A creation stamp that parses to a zone-aware time ends the sweep with \<open>TypeError\<close>
  before anything is deleted and before the last-sweep stamp is set.
\<close>

lemma zone_aware_stamp_stops_sweep:
  assumes "\<not> naive_stamps E s"
  shows "cleanup_expired_entries E s = (Some TypeError, s\<lparr>ticks := Suc (ticks s)\<rparr>)"
proof -
  from assms have "list_ex (\<lambda>x. zone_aware E (snd x)) (memory s)"
    by (auto simp: naive_stamps_def list_all_iff list_ex_iff)
  then show ?thesis
    by (intro cleanup_expired_entries_raises collect_expired_aware)
qed

lemma zoned_table_is_not_swept:
  "cleanup_expired_entries later zoned = (Some TypeError, zoned\<lparr>ticks := 2\<rparr>)"
proof -
  have "\<not> naive_stamps later zoned"
    by (simp add: naive_stamps_def zone_aware_def zoned_def aged_def zoned_entry_def
        stale_entry_def corrupt_entry_def brink_entry_def edge_entry_def recent_entry_def
        fresh_entry_def new_entry_def later_def sample_env_def sample_fromisoformat_def)
  from zone_aware_stamp_stops_sweep [OF this] show ?thesis
    by (simp add: zoned_def aged_def)
qed

text \<open>
  The store never writes such a stamp: when \<open>fromisoformat\<close> reads back what \<open>isoformat\<close>
  wrote, every state the store produces has naive stamps only.
\<close>

lemma clear_memory_subset: "set (memory (snd (clear_memory E pid s))) \<subseteq> set (memory s)"
  by (auto simp: clear_memory_def set_delete split: option.splits sum.splits)

lemma clear_each_subset: "set (memory (clear_each E ids s)) \<subseteq> set (memory s)"
proof (induction ids arbitrary: s)
  case Nil
  then show ?case by simp
next
  case (Cons pid ids)
  have "set (memory (clear_each E (pid # ids) s)) \<subseteq> set (memory (snd (clear_memory E pid s)))"
    using Cons by simp
  also have "\<dots> \<subseteq> set (memory s)" by (rule clear_memory_subset)
  finally show ?case .
qed

lemma naive_stamps_subset:
  "set (memory s') \<subseteq> set (memory s) \<Longrightarrow> naive_stamps E s \<Longrightarrow> naive_stamps E s'"
  by (auto simp: naive_stamps_def list_all_iff)

lemma cleanup_if_needed_subset: "set (memory (snd (cleanup_if_needed E s))) \<subseteq> set (memory s)"
proof -
  have old: "set (memory (cleanup_old_entries E t)) \<subseteq> set (memory t)" for t :: "'a SharedMemory"
    by (simp add: cleanup_old_entries_def Let_def clear_each_subset)
  have sweep: "set (memory (snd (cleanup_expired_entries E t))) \<subseteq> set (memory t)"
    for t :: "'a SharedMemory"
    using clear_each_subset [of E _ "t\<lparr>ticks := Suc (ticks t)\<rparr>"]
    by (auto simp: cleanup_expired_entries_def now_def Let_def split: sum.splits)
  have "set (memory (snd (cleanup_expired_entries E (t\<lparr>ticks := n\<rparr>)))) \<subseteq> set (memory t)"
    for t :: "'a SharedMemory" and n
    using sweep [of "t\<lparr>ticks := n\<rparr>"] by simp
  with old [of s] show ?thesis
    by (auto simp: cleanup_if_needed_def now_def Let_def
        split: option.splits datetime.splits if_splits)
qed

lemma naive_stamps_put:
  assumes "naive_stamps E s" and "reads_back E"
    and "\<And>ts. timestamp (cr ts) = ts" and "\<And>e. timestamp (ch e) = timestamp e"
  shows "naive_stamps E (put E pid cr ch s)"
proof -
  obtain v where mem: "memory (put E pid cr ch s) = AList.update pid v (memory s)"
    and v: "\<not> zone_aware E v"
  proof (cases "map_of (memory s) pid")
    case None
    have "\<not> zone_aware E (cr (isoformat E (utcnow E (ticks s))))"
      using assms(2,3) by (simp add: zone_aware_def reads_back_def)
    with None show ?thesis using that by (simp add: put_def now_def)
  next
    case (Some e)
    then have "(pid, e) \<in> set (memory s)" by (rule map_of_SomeD)
    with assms(1) have "\<not> zone_aware E e" by (auto simp: naive_stamps_def list_all_iff)
    then have "\<not> zone_aware E (ch e)" using assms(4) by (simp add: zone_aware_def)
    with Some show ?thesis using that by (simp add: put_def)
  qed
  have "\<not> zone_aware E (snd x)" if "x \<in> set (AList.update pid v (memory s))" for x
  proof -
    from that set_update_subset [of pid v "memory s"]
    have "x = (pid, v) \<or> x \<in> set (memory s)" by auto
    with assms(1) v show ?thesis by (auto simp: naive_stamps_def list_all_iff)
  qed
  then show ?thesis by (simp add: naive_stamps_def list_all_iff mem)
qed

lemma naive_stamps_fields [simp]:
  "naive_stamps E (update_stats E' s) = naive_stamps E s"
  "naive_stamps E (s\<lparr>conversation_index := idx\<rparr>) = naive_stamps E s"
  by (simp_all add: naive_stamps_def)

lemma reachable_naive_stamps:
  assumes "reads_back E"
  shows "reachable E s \<Longrightarrow> naive_stamps E s"
proof (induction rule: reachable.induct)
  case (r_init me ch)
  show ?case by (simp add: naive_stamps_def init_def)
next
  case (r_metadata s pid md)
  then have "naive_stamps E (put E pid
               (\<lambda>ts. (new_entry pid ts ''metadata_stored'')\<lparr>metadata := md\<rparr>)
               (\<lambda>e. e\<lparr>metadata := dict_update (metadata e) md,
                      agent_history := agent_history e @ [''metadata_updated'']\<rparr>) s)"
    using assms by (intro naive_stamps_put) (simp_all add: new_entry_def)
  then have "naive_stamps E (update_stats E (put E pid
               (\<lambda>ts. (new_entry pid ts ''metadata_stored'')\<lparr>metadata := md\<rparr>)
               (\<lambda>e. e\<lparr>metadata := dict_update (metadata e) md,
                      agent_history := agent_history e @ [''metadata_updated'']\<rparr>) s))"
    by simp
  with cleanup_if_needed_subset show ?case
    unfolding store_metadata_state by (rule naive_stamps_subset)
next
  case (r_classification s pid c)
  then show ?case
    using assms
    by (auto simp: store_classification_def Let_def new_entry_def intro!: naive_stamps_put)
next
  case (r_extracted s pid d)
  then show ?case
    using assms
    by (auto simp: store_extracted_data_def Let_def new_entry_def intro!: naive_stamps_put)
next
  case (r_conversation s pid cid)
  then show ?case
    using assms
    by (auto simp: store_conversation_id_def Let_def new_entry_def intro!: naive_stamps_put)
next
  case (r_clear s pid)
  then show ?case using clear_memory_subset naive_stamps_subset by blast
next
  case (r_clear_all s)
  show ?case by (simp add: clear_all_memory_def naive_stamps_def)
qed

section \<open>Capacity after a write\<close>

text \<open>
  \<open>store_metadata\<close> keeps the table within its capacity: the eviction brings an oversized
  table down to \<open>max 0 (max_entries - 100)\<close> records, and the sweep that may follow only
  removes records.
\<close>

lemma cleanup_expired_entries_length:
  assumes "wf s"
  shows "length (memory (snd (cleanup_expired_entries E s))) \<le> length (memory s)"
proof (cases "collect_expired E (utcnow E (ticks s) - timedelta_hours (cleanup_hours s)) (memory s)")
  case (Inl e)
  then show ?thesis by (simp add: cleanup_expired_entries_raises)
next
  case (Inr ids)
  have "wf (s\<lparr>ticks := Suc (ticks s)\<rparr>)" using assms by simp
  then show ?thesis
    by (simp add: cleanup_expired_entries_returns(2) [OF Inr] clear_each_memory)
qed

lemma cleanup_if_needed_length:
  assumes "wf s" and "0 \<le> max_entries s"
  shows "int (length (memory (snd (cleanup_if_needed E s)))) \<le> max_entries s"
proof -
  obtain s1 where s1: "s1 = (if max_entries s < int (length (memory s))
                             then cleanup_old_entries E s else s)"
    by simp
  have w1: "wf s1" using assms(1) by (simp add: s1 wf_cleanup_old_entries)
  have l1: "int (length (memory s1)) \<le> max_entries s"
    using assms by (auto simp: s1 cleanup_old_entries_memory(2))
  have "length (memory (snd (cleanup_expired_entries E (s1\<lparr>ticks := Suc (ticks s1)\<rparr>)))) \<le>
          length (memory (s1\<lparr>ticks := Suc (ticks s1)\<rparr>))"
    using w1 by (intro cleanup_expired_entries_length) simp
  with l1 have l2: "int (length (memory (snd (cleanup_expired_entries E
                      (s1\<lparr>ticks := Suc (ticks s1)\<rparr>))))) \<le> max_entries s"
    by simp
  have "snd (cleanup_if_needed E s) = s1 \<or>
        snd (cleanup_if_needed E s) = s1\<lparr>ticks := Suc (ticks s1)\<rparr> \<or>
        snd (cleanup_if_needed E s) =
          snd (cleanup_expired_entries E (s1\<lparr>ticks := Suc (ticks s1)\<rparr>))"
    unfolding s1
    by (simp add: cleanup_if_needed_def Let_def now_def split: option.splits datetime.splits)
  with l1 l2 show ?thesis by auto
qed

lemma store_metadata_within_capacity:
  assumes "wf s" and "0 \<le> max_entries s"
  shows "int (length (memory (snd (store_metadata E pid md s)))) \<le> max_entries s"
proof -
  let ?s1 = "put E pid
               (\<lambda>ts. (new_entry pid ts ''metadata_stored'')\<lparr>metadata := md\<rparr>)
               (\<lambda>e. e\<lparr>metadata := dict_update (metadata e) md,
                      agent_history := agent_history e @ [''metadata_updated'']\<rparr>) s"
  have "wf ?s1" using assms(1) by (auto simp: linked_def new_entry_def intro!: wf_put)
  then have "wf (update_stats E ?s1)" by simp
  moreover have "0 \<le> max_entries (update_stats E ?s1)" using assms(2) by simp
  ultimately have "int (length (memory (snd (cleanup_if_needed E (update_stats E ?s1))))) \<le>
                     max_entries (update_stats E ?s1)"
    by (rule cleanup_if_needed_length)
  then show ?thesis by (simp add: store_metadata_state)
qed

text \<open>
  C1. The claim is that after any of the four writes the table holds at most
  \<open>max_entries\<close> records. Only \<open>store_metadata\<close> calls \<open>_cleanup_if_needed\<close>; the other
  three writes return without it. In a store of capacity 1, two calls of
  \<open>store_classification\<close> on distinct ids both succeed and leave two records.
\<close>

theorem store_classification_exceeds_max_entries:
  "fst (store_classification still ''a'' order_json (init still 1 24 :: int SharedMemory)) \<and>
   fst (store_classification still ''b'' order_json one_classified) \<and>
   max_entries two_classified = 1 \<and>
   map fst (memory two_classified) = [''a'', ''b'']"
  by (simp add: one_classified_def two_classified_def run_defs)

section \<open>The conversation index\<close>

text \<open>
  C2. The claim is that after any sequence of \<open>store_conversation_id\<close> and
  \<open>clear_memory\<close> calls every id in a bucket of the index has a record. When a record is
  moved from conversation \<open>c1\<close> to \<open>c2\<close> and then deleted, \<open>clear_memory\<close> unregisters it
  from \<open>c2\<close> only: the bucket of \<open>c1\<close> still lists \<open>p\<close>, and the table is empty.
\<close>

theorem reassigned_conversation_leaves_dangling_id:
  "fst (store_conversation_id still ''p'' ''c1'' (init still 1000 24 :: int SharedMemory)) \<and>
   fst (store_conversation_id still ''p'' ''c2'' threaded) \<and>
   fst (clear_memory still ''p'' rethreaded) \<and>
   conversation_index rethreaded_deleted = [(''c1'', [''p''])] \<and>
   memory rethreaded_deleted = []"
  by (simp add: threaded_def rethreaded_def rethreaded_deleted_def run_defs)

section \<open>Deletion\<close>

lemma bucket_lookup: "map_of (conversation_index s) cid = Some l \<Longrightarrow> bucket s cid = l"
  by (simp add: bucket_def)

lemma unregister_listed:
  assumes "map_of idx cid = Some l" "pid \<in> set l" "distinct l"
    and "unregister pid cid idx = Inr idx'"
  shows "map_of idx' cid = (if remove1 pid l = [] then None else Some (remove1 pid l))"
    and "c \<noteq> cid \<Longrightarrow> map_of idx' c = map_of idx c"
    and "pid \<notin> set (remove1 pid l)"
  using assms
  by (auto simp: unregister_def Let_def AList.update_conv' AList.delete_conv'
      split: if_splits)

text \<open>
  \<open>clear_memory\<close> on an unknown id returns \<open>False\<close> and changes nothing. On a known id, in
  a state that satisfies the invariant of the store, it returns \<open>True\<close> and removes the
  record; when the record's conversation id is a non-empty string, the id is taken out of
  that conversation's bucket, the bucket is deleted when that leaves it empty, and no
  other bucket changes; when the record has no conversation id, the index stays as it is.
\<close>

lemma clear_memory_contract:
  "(map_of (memory s) pid = None \<longrightarrow> clear_memory E pid s = (False, s)) \<and>
   (wf s \<longrightarrow>
     (\<forall>e. map_of (memory s) pid = Some e \<longrightarrow>
        fst (clear_memory E pid s) \<and>
        memory (snd (clear_memory E pid s)) = AList.delete pid (memory s) \<and>
        map_of (memory (snd (clear_memory E pid s))) pid = None \<and>
        (case conversation_id e of
           None \<Rightarrow> conversation_index (snd (clear_memory E pid s)) = conversation_index s
         | Some cid \<Rightarrow>
             cid \<noteq> [] \<longrightarrow>
               bucket (snd (clear_memory E pid s)) cid = remove1 pid (bucket s cid) \<and>
               pid \<notin> set (bucket (snd (clear_memory E pid s)) cid) \<and>
               (map_of (conversation_index (snd (clear_memory E pid s))) cid = None) =
                 (remove1 pid (bucket s cid) = []) \<and>
               (\<forall>c. c \<noteq> cid \<longrightarrow>
                  map_of (conversation_index (snd (clear_memory E pid s))) c =
                  map_of (conversation_index s) c))))"
proof (intro conjI impI allI)
  assume "map_of (memory s) pid = None"
  then show "clear_memory E pid s = (False, s)" by (rule clear_memory_unknown)
next
  fix e
  assume w: "wf s" and e: "map_of (memory s) pid = Some e"
  let ?s' = "snd (clear_memory E pid s)"
  from clear_memory_known [OF w e, of E] obtain idx where
    res: "clear_memory E pid s =
            (True, update_stats E (s\<lparr>conversation_index := idx,
                                      memory := AList.delete pid (memory s)\<rparr>))"
    and idx: "case conversation_id e of None \<Rightarrow> idx = conversation_index s
          | Some cid \<Rightarrow> if cid \<noteq> [] then unregister pid cid (conversation_index s) = Inr idx
                       else idx = conversation_index s"
    by blast
  show "fst (clear_memory E pid s)" by (simp add: res)
  show "memory ?s' = AList.delete pid (memory s)" by (simp add: res)
  show "map_of (memory ?s') pid = None" by (simp add: res AList.delete_conv')
  show "case conversation_id e of
           None \<Rightarrow> conversation_index ?s' = conversation_index s
         | Some cid \<Rightarrow>
             cid \<noteq> [] \<longrightarrow>
               bucket ?s' cid = remove1 pid (bucket s cid) \<and>
               pid \<notin> set (bucket ?s' cid) \<and>
               (map_of (conversation_index ?s') cid = None) = (remove1 pid (bucket s cid) = []) \<and>
               (\<forall>c. c \<noteq> cid \<longrightarrow>
                  map_of (conversation_index ?s') c = map_of (conversation_index s) c)"
  proof (cases "conversation_id e")
    case None
    with idx show ?thesis by (simp add: res)
  next
    case (Some cid)
    show ?thesis
    proof (cases "cid = []")
      case True
      with idx Some show ?thesis by (simp add: res)
    next
      case False
      from e have "(pid, e) \<in> set (memory s)" by (rule map_of_SomeD)
      with w have "linked pid e (conversation_index s)" by (auto simp: wf_def list_all_iff)
      with Some False obtain l where l: "map_of (conversation_index s) cid = Some l" "pid \<in> set l"
        by (auto simp: linked_def split: option.splits)
      from l(1) have "(cid, l) \<in> set (conversation_index s)" by (rule map_of_SomeD)
      with w have dl: "distinct l" by (auto simp: wf_def list_all_iff)
      from idx Some False have u: "unregister pid cid (conversation_index s) = Inr idx" by simp
      note facts = unregister_listed [OF l dl u]
      have ci: "conversation_index ?s' = idx" by (simp add: res)
      have b: "bucket s cid = l" using l(1) by (rule bucket_lookup)
      have b': "bucket ?s' cid = remove1 pid l"
        by (simp add: bucket_def ci facts(1))
      show ?thesis
        using Some False facts(2,3) by (simp add: b b' ci facts(1))
    qed
  qed
qed

lemma wf_threaded: "wf threaded"
  by (simp add: threaded_def wf_init wf_store_conversation_id)

lemma wf_paired: "wf paired"
  by (simp add: paired_def wf_threaded wf_store_conversation_id)

lemma clear_memory_contract_example:
  "map_of (memory paired) ''nobody'' = None \<and>
   clear_memory still ''nobody'' paired = (False, paired) \<and>
   wf paired \<and>
   map_option conversation_id (map_of (memory paired) ''p'') = Some (Some ''c1'') \<and>
   bucket paired ''c1'' = [''p'', ''q''] \<and>
   fst (clear_memory still ''p'' paired) \<and>
   map_of (memory (snd (clear_memory still ''p'' paired))) ''p'' = None \<and>
   bucket (snd (clear_memory still ''p'' paired)) ''c1'' = [''q'']"
proof -
  have none: "map_of (memory paired) ''nobody'' = None"
    by (simp add: paired_def threaded_def run_defs)
  obtain e where e: "map_of (memory paired) ''p'' = Some e" and c: "conversation_id e = Some ''c1''"
    by (simp add: paired_def threaded_def run_defs)
  have b: "bucket paired ''c1'' = [''p'', ''q'']"
    by (simp add: bucket_def paired_def threaded_def run_defs)
  note known = clear_memory_contract [of paired "''p''" still, THEN conjunct2, rule_format,
      OF wf_paired e]
  note unknown = clear_memory_contract [of paired "''nobody''" still, THEN conjunct1, rule_format,
      OF none]
  from known c b have "fst (clear_memory still ''p'' paired)"
    and "map_of (memory (snd (clear_memory still ''p'' paired))) ''p'' = None"
    and "bucket (snd (clear_memory still ''p'' paired)) ''c1'' = [''q'']"
    by (simp_all add: AList.delete_conv')
  with none unknown wf_paired e c b show ?thesis by simp
qed

text \<open>
  C8. The claim has \<open>clear_memory\<close> take the id of a deleted record out of its
  conversation's bucket whenever the record has a conversation id.
  \<open>store_conversation_id\<close> files a record under the empty string as under any other
  conversation id, but the test \<open>if entry.conversation_id:\<close>, under the comment
  \<open># Remove from conversation index\<close>, is false for the empty string: the deletion returns
  \<open>True\<close>, the record is gone, and its id stays in the bucket of the empty string.
\<close>

theorem empty_conversation_id_stays_registered:
  "fst (store_conversation_id still ''p'' [] (init still 1000 24 :: int SharedMemory)) \<and>
   map_option conversation_id (map_of (memory unnamed_thread) ''p'') = Some (Some []) \<and>
   fst (clear_memory still ''p'' unnamed_thread) \<and>
   memory unnamed_thread_deleted = [] \<and>
   conversation_index unnamed_thread_deleted = [([], [''p''])]"
  by (simp add: unnamed_thread_def unnamed_thread_deleted_def run_defs)

section \<open>Reading a conversation\<close>

lemma serialize_entry_error: "serialize_entry E e = Inl x \<Longrightarrow> x = TypeError"
  by (auto simp: serialize_entry_def split: option.splits)

lemma serialize_entry_id: "serialize_entry E e = Inr r \<Longrightarrow> processing_id r = processing_id e"
  by (auto simp: serialize_entry_def split: option.splits)

lemma collect_history_live:
  "collect_history E mem pids = collect_history E mem (filter (\<lambda>p. map_of mem p \<noteq> None) pids)"
  by (induction pids) (auto split: option.splits sum.splits)

lemma collect_history_members:
  "collect_history E mem pids = Inr h \<Longrightarrow> r \<in> set h \<Longrightarrow>
   \<exists>pid e. pid \<in> set pids \<and> map_of mem pid = Some e \<and> serialize_entry E e = Inr r"
proof (induction pids arbitrary: h)
  case Nil
  then show ?case by simp
next
  case (Cons p pids)
  show ?case
  proof (cases "map_of mem p")
    case None
    with Cons.prems have "collect_history E mem pids = Inr h" by simp
    from Cons.IH [OF this Cons.prems(2)] show ?thesis by auto
  next
    case (Some e)
    with Cons.prems(1) obtain d ds where d: "serialize_entry E e = Inr d"
      and ds: "collect_history E mem pids = Inr ds" and h: "h = d # ds"
      by (auto split: sum.splits)
    show ?thesis
    proof (cases "r = d")
      case True
      with Some d show ?thesis by auto
    next
      case False
      with h Cons.prems(2) have "r \<in> set ds" by simp
      from Cons.IH [OF ds this] show ?thesis by auto
    qed
  qed
qed

lemma collect_history_returns:
  assumes "\<And>pid e. pid \<in> set pids \<Longrightarrow> map_of mem pid = Some e \<Longrightarrow>
             serialize_entry E e \<noteq> Inl TypeError"
  shows "\<exists>h. collect_history E mem pids = Inr h \<and>
             length h = length (filter (\<lambda>p. map_of mem p \<noteq> None) pids)"
  using assms
proof (induction pids)
  case Nil
  then show ?case by simp
next
  case (Cons p pids)
  then obtain h where h: "collect_history E mem pids = Inr h"
    "length h = length (filter (\<lambda>p. map_of mem p \<noteq> None) pids)"
    by auto
  show ?case
  proof (cases "map_of mem p")
    case None
    with h show ?thesis by simp
  next
    case (Some e)
    with Cons.prems [of p e] have "serialize_entry E e \<noteq> Inl TypeError" by simp
    then obtain d where "serialize_entry E e = Inr d"
      by (cases "serialize_entry E e") (auto dest: serialize_entry_error)
    with Some h show ?thesis by simp
  qed
qed

text \<open>
  C10. \<open>get_conversation_history\<close> passes over every id of the bucket that has no entry in
  the table: what the call gives (a list or an exception) is what it gives when those ids
  are struck from the bucket first, so a dangling id neither raises nor shows up. When the
  call returns a list, each record in it is the serialised form of an entry that is in the
  table under an id of the bucket. And the call does return a list, with one record for
  each live id of the bucket, unless serialising one of those live entries raises.
\<close>

theorem conversation_history_skips_dangling:
  "get_conversation_history E s cid =
     get_conversation_history E
       (s\<lparr>conversation_index :=
            AList.update cid (filter (\<lambda>p. map_of (memory s) p \<noteq> None) (bucket s cid))
              (conversation_index s)\<rparr>) cid \<and>
   (\<forall>h. get_conversation_history E s cid = Inr h \<longrightarrow>
      (\<forall>r \<in> set h. \<exists>pid e. pid \<in> set (bucket s cid) \<and> map_of (memory s) pid = Some e \<and>
                              serialize_entry E e = Inr r \<and> processing_id r = processing_id e)) \<and>
   ((\<forall>pid e. pid \<in> set (bucket s cid) \<longrightarrow> map_of (memory s) pid = Some e \<longrightarrow>
              serialize_entry E e \<noteq> Inl TypeError) \<longrightarrow>
    (\<exists>h. get_conversation_history E s cid = Inr h \<and>
          length h = length (filter (\<lambda>p. map_of (memory s) p \<noteq> None) (bucket s cid))))"
proof (intro conjI allI impI ballI)
  let ?live = "filter (\<lambda>p. map_of (memory s) p \<noteq> None) (bucket s cid)"
  let ?s' = "s\<lparr>conversation_index := AList.update cid ?live (conversation_index s)\<rparr>"
  have "bucket ?s' cid = ?live"
    by (simp add: bucket_def AList.update_conv')
  moreover have "filter (\<lambda>p. map_of (memory s) p \<noteq> None) ?live = ?live"
    by simp
  ultimately have "collect_history E (memory ?s') (bucket ?s' cid) =
                   collect_history E (memory s) (bucket s cid)"
    using collect_history_live [of E "memory s" "bucket s cid"]
      collect_history_live [of E "memory s" ?live] by simp
  then show "get_conversation_history E s cid = get_conversation_history E ?s' cid"
    by (simp add: get_conversation_history_def Let_def)
next
  fix h r
  assume "get_conversation_history E s cid = Inr h" and r: "r \<in> set h"
  then obtain h' where h': "collect_history E (memory s) (bucket s cid) = Inr h'"
    and "h = sort_key timestamp h'"
    by (auto simp: get_conversation_history_def Let_def split: sum.splits)
  with r have "r \<in> set h'" by simp
  from collect_history_members [OF h' this]
  show "\<exists>pid e. pid \<in> set (bucket s cid) \<and> map_of (memory s) pid = Some e \<and>
                serialize_entry E e = Inr r \<and> processing_id r = processing_id e"
    by (auto dest: serialize_entry_id)
next
  assume "\<forall>pid e. pid \<in> set (bucket s cid) \<longrightarrow> map_of (memory s) pid = Some e \<longrightarrow>
            serialize_entry E e \<noteq> Inl TypeError"
  then have "\<exists>h. collect_history E (memory s) (bucket s cid) = Inr h \<and>
             length h = length (filter (\<lambda>p. map_of (memory s) p \<noteq> None) (bucket s cid))"
    by (intro collect_history_returns) blast
  then show "\<exists>h. get_conversation_history E s cid = Inr h \<and>
          length h = length (filter (\<lambda>p. map_of (memory s) p \<noteq> None) (bucket s cid))"
    by (auto simp: get_conversation_history_def Let_def)
qed

theorem conversation_history_skips_dangling_witness:
  "bucket half_dangling ''c1'' = [''p'', ''q''] \<and>
   map_of (memory half_dangling) ''p'' = None \<and>
   map_option processing_id (map_of (memory half_dangling) ''q'') = Some ''q'' \<and>
   (\<exists>h. get_conversation_history still half_dangling ''c1'' = Inr h \<and> length h = 1)"
proof -
  have b: "bucket half_dangling ''c1'' = [''p'', ''q'']"
    and p: "map_of (memory half_dangling) ''p'' = None"
    by (simp_all add: bucket_def half_dangling_def rethreaded_deleted_def rethreaded_def
        threaded_def run_defs)
  obtain e where q: "map_of (memory half_dangling) ''q'' = Some e"
    and e: "classification e = None" "processing_id e = ''q''"
    by (simp add: half_dangling_def rethreaded_deleted_def rethreaded_def threaded_def run_defs)
  have ok: "\<forall>pid e. pid \<in> set (bucket half_dangling ''c1'') \<longrightarrow>
              map_of (memory half_dangling) pid = Some e \<longrightarrow>
              serialize_entry still e \<noteq> Inl TypeError"
    using p q e by (auto simp: b serialize_entry_def)
  from conversation_history_skips_dangling [of still half_dangling "''c1''",
      THEN conjunct2, THEN conjunct2, THEN mp, OF ok]
  have "\<exists>h. get_conversation_history still half_dangling ''c1'' = Inr h \<and> length h = 1"
    using p q by (simp add: b)
  with b p q e show ?thesis by simp
qed

section \<open>What a write leaves in the record\<close>

lemma store_metadata_survivor:
  assumes "map_of (memory (snd (store_metadata E pid md s))) k = Some e'"
  shows "map_of (memory (put E pid
           (\<lambda>ts. (new_entry pid ts ''metadata_stored'')\<lparr>metadata := md\<rparr>)
           (\<lambda>e. e\<lparr>metadata := dict_update (metadata e) md,
                  agent_history := agent_history e @ [''metadata_updated'']\<rparr>) s)) k = Some e'"
proof -
  let ?s1 = "put E pid
           (\<lambda>ts. (new_entry pid ts ''metadata_stored'')\<lparr>metadata := md\<rparr>)
           (\<lambda>e. e\<lparr>metadata := dict_update (metadata e) md,
                  agent_history := agent_history e @ [''metadata_updated'']\<rparr>) s"
  from assms have "map_of (memory (snd (cleanup_if_needed E (update_stats E ?s1)))) k = Some e'"
    by (simp only: store_metadata_state)
  then have "map_of (memory (update_stats E ?s1)) k = Some e'"
    by (rule cleanup_if_needed_survivor)
  then show ?thesis by simp
qed

lemma store_metadata_record:
  assumes "map_of (memory (snd (store_metadata E pid md s))) pid = Some e'"
  shows "e' = (case map_of (memory s) pid of
                 None \<Rightarrow> (new_entry pid (isoformat E (utcnow E (ticks s))) ''metadata_stored'')
                           \<lparr>metadata := md\<rparr>
               | Some e \<Rightarrow> e\<lparr>metadata := dict_update (metadata e) md,
                             agent_history := agent_history e @ [''metadata_updated'']\<rparr>)"
  using store_metadata_survivor [OF assms] by (simp add: put_lookup)

lemma dict_update_Cons:
  "dict_update d (kv # other) = dict_update (AList.update (fst kv) (snd kv) d) other"
  by (simp add: dict_update_def)

lemma dict_update_lookup:
  "map_of (dict_update d other) k =
     (case map_of (rev other) k of None \<Rightarrow> map_of d k | Some v \<Rightarrow> Some v)"
proof (induction other arbitrary: d)
  case Nil
  then show ?case by (simp add: dict_update_def)
next
  case (Cons kv other)
  then show ?case
    by (cases kv)
       (simp add: dict_update_Cons AList.update_conv' map_add_def split: option.splits)
qed

lemma lookup_rev:
  assumes "distinct (map fst other)"
  shows "map_of (rev other) k = map_of other k"
proof (cases "map_of other k")
  case None
  then have "k \<notin> fst ` set other" by (simp add: map_of_eq_None_iff)
  then have "map_of (rev other) k = None" by (simp add: map_of_eq_None_iff)
  with None show ?thesis by simp
next
  case (Some v)
  then have "(k, v) \<in> set (rev other)" by (auto dest: map_of_SomeD)
  moreover have "distinct (map fst (rev other))" using assms by (simp add: rev_map [symmetric])
  ultimately have "map_of (rev other) k = Some v" by simp
  with Some show ?thesis by simp
qed

lemma merged_metadata:
  assumes "distinct (map fst md)"
    and "map_of (memory (snd (store_metadata E pid md s))) pid = Some e'"
  shows "case map_of (memory s) pid of
           None \<Rightarrow> metadata e' = md
         | Some e \<Rightarrow>
             metadata e' = dict_update (metadata e) md \<and>
             (\<forall>k. map_of (metadata e') k =
                    (case map_of md k of None \<Rightarrow> map_of (metadata e) k | Some v \<Rightarrow> Some v))"
proof (cases "map_of (memory s) pid")
  case None
  with store_metadata_record [OF assms(2)] show ?thesis by (simp add: new_entry_def)
next
  case (Some e)
  with store_metadata_record [OF assms(2)]
  have m: "metadata e' = dict_update (metadata e) md" by simp
  have "map_of (metadata e') k =
          (case map_of md k of None \<Rightarrow> map_of (metadata e) k | Some v \<Rightarrow> Some v)" for k
    by (simp add: m dict_update_lookup lookup_rev [OF assms(1)])
  with Some m show ?thesis by simp
qed

text \<open>
  C4, as the code has it. \<open>store_metadata\<close> ends with the retention pass, which may evict
  the record it has just written. When the record is still in the table after the call,
  its metadata is the merge: the written dictionary alone when the id was new, and
  otherwise the old metadata with every key of the written dictionary set to the written
  value, the other keys kept.
\<close>

theorem store_metadata_merges:
  assumes "distinct (map fst md)"
    and "map_of (memory (snd (store_metadata E pid md s))) pid = Some e'"
  shows "case map_of (memory s) pid of
           None \<Rightarrow> metadata e' = md
         | Some e \<Rightarrow>
             metadata e' = dict_update (metadata e) md \<and>
             (\<forall>k. map_of (metadata e') k =
                    (case map_of md k of None \<Rightarrow> map_of (metadata e) k | Some v \<Rightarrow> Some v))"
  using assms by (rule merged_metadata)

theorem store_metadata_merges_witness:
  "distinct (map fst [(''b'', 2::int)]) \<and> distinct (map fst [(''a'', 2::int)]) \<and>
   get_metadata noted ''p'' = Some [(''a'', 1)] \<and>
   get_metadata (snd (store_metadata still ''p'' [(''b'', 2)] noted)) ''p'' =
     Some [(''a'', 1), (''b'', 2)] \<and>
   get_metadata (snd (store_metadata still ''p'' [(''a'', 2)] noted)) ''p'' = Some [(''a'', 2)]"
proof -
  obtain e where e: "map_of (memory noted) ''p'' = Some e" and m: "metadata e = [(''a'', 1)]"
    by (simp add: noted_def run_defs)
  obtain e1 where e1: "map_of (memory (snd (store_metadata still ''p'' [(''b'', 2)] noted))) ''p'' = Some e1"
    by (simp add: noted_def run_defs)
  obtain e2 where e2: "map_of (memory (snd (store_metadata still ''p'' [(''a'', 2)] noted))) ''p'' = Some e2"
    by (simp add: noted_def run_defs)
  have d1: "distinct (map fst [(''b'', 2::int)])" and d2: "distinct (map fst [(''a'', 2::int)])"
    by simp_all
  from store_metadata_merges [OF d1 e1] e m
  have "metadata e1 = [(''a'', 1), (''b'', 2)]"
    by (simp add: dict_update_def)
  moreover from store_metadata_merges [OF d2 e2] e m
  have "metadata e2 = [(''a'', 2)]"
    by (simp add: dict_update_def)
  ultimately show ?thesis using e m e1 e2 by (simp add: get_metadata_def)
qed

text \<open>
  The claim as it is written is about any two maps written in sequence. With the default
  configuration (1000 entries, 24 hours), a second write that comes 25 hours after the
  first finds the last sweep a day old, and the sweep it starts evicts the record by its
  creation stamp: both writes succeed, and the record with its metadata is gone.
\<close>

theorem late_second_write_loses_metadata:
  "fst (store_metadata next_day ''p'' [(''a'', 1)] (init next_day 1000 24 :: int SharedMemory)) \<and>
   get_metadata noted_day0 ''p'' = Some [(''a'', 1)] \<and>
   fst (store_metadata next_day ''p'' [(''b'', 2)] noted_day0) \<and>
   get_metadata noted_day1 ''p'' = None"
  by (simp add: noted_day0_def noted_day1_def get_metadata_def run_defs)

section \<open>Reading back what was written\<close>

text \<open>
  C7, as the code has it. After \<open>store_classification\<close> and \<open>store_extracted_data\<close>, which
  always succeed, the matching read returns the written value. After
  \<open>store_conversation_id\<close> the record carries the written conversation id, and
  \<open>get_memory\<close> returns the record with it whenever the record can be serialised. After
  \<open>store_metadata\<close>, if the record is still in the table (the retention pass that ends the
  call has not evicted it), \<open>get_metadata\<close> returns a dictionary in which every written
  key has its written value.
\<close>

theorem read_your_write:
  "fst (store_classification E pid c s) \<and>
   get_classification (snd (store_classification E pid c s)) pid = Some c \<and>
   fst (store_extracted_data E pid d s) \<and>
   get_extracted_data (snd (store_extracted_data E pid d s)) pid = Some d \<and>
   fst (store_conversation_id E pid cid s) \<and>
   (\<exists>e. map_of (memory (snd (store_conversation_id E pid cid s))) pid = Some e \<and>
        conversation_id e = Some cid \<and>
        (\<forall>r. serialize_entry E e = Inr r \<longrightarrow>
           get_memory E (snd (store_conversation_id E pid cid s)) pid = Inr (Some r) \<and>
           conversation_id r = Some cid)) \<and>
   (distinct (map fst md) \<longrightarrow>
    (\<forall>m. get_metadata (snd (store_metadata E pid md s)) pid = Some m \<longrightarrow>
       (\<forall>k v. (k, v) \<in> set md \<longrightarrow> map_of m k = Some v)))"
proof (intro conjI impI allI)
  show "fst (store_classification E pid c s)"
    by (simp add: store_classification_def Let_def)
  show "get_classification (snd (store_classification E pid c s)) pid = Some c"
    by (simp add: store_classification_def Let_def get_classification_def put_lookup
        new_entry_def split: option.splits)
  show "fst (store_extracted_data E pid d s)"
    by (simp add: store_extracted_data_def Let_def)
  show "get_extracted_data (snd (store_extracted_data E pid d s)) pid = Some d"
    by (simp add: store_extracted_data_def Let_def get_extracted_data_def put_lookup
        new_entry_def split: option.splits)
  show "fst (store_conversation_id E pid cid s)"
    by (simp add: store_conversation_id_def Let_def)
  show "\<exists>e. map_of (memory (snd (store_conversation_id E pid cid s))) pid = Some e \<and>
        conversation_id e = Some cid \<and>
        (\<forall>r. serialize_entry E e = Inr r \<longrightarrow>
           get_memory E (snd (store_conversation_id E pid cid s)) pid = Inr (Some r) \<and>
           conversation_id r = Some cid)"
  proof -
    obtain e where e: "map_of (memory (snd (store_conversation_id E pid cid s))) pid = Some e"
      and c: "conversation_id e = Some cid"
      by (simp add: store_conversation_id_def Let_def put_lookup new_entry_def
          split: option.splits)
    have "get_memory E (snd (store_conversation_id E pid cid s)) pid = Inr (Some r) \<and>
          conversation_id r = Some cid" if "serialize_entry E e = Inr r" for r
      using that e c by (auto simp: get_memory_def serialize_entry_def split: option.splits)
    with e c show ?thesis by blast
  qed
next
  fix m k v
  assume d: "distinct (map fst md)"
    and m: "get_metadata (snd (store_metadata E pid md s)) pid = Some m"
    and kv: "(k, v) \<in> set md"
  from m obtain e' where e': "map_of (memory (snd (store_metadata E pid md s))) pid = Some e'"
    and me: "m = metadata e'"
    by (auto simp: get_metadata_def)
  from d kv have look: "map_of md k = Some v" by simp
  from merged_metadata [OF d e'] look show "map_of m k = Some v"
    by (auto simp: me split: option.splits)
qed

theorem read_your_write_witness:
  "get_classification (snd (store_classification still ''p'' order_json noted)) ''p'' =
     Some order_json \<and>
   get_extracted_data (snd (store_extracted_data still ''p'' [(''total'', 7)] noted)) ''p'' =
     Some [(''total'', 7)] \<and>
   get_memory still (snd (store_conversation_id still ''p'' ''c1'' noted)) ''p'' =
     Inr (Some \<lparr>processing_id = ''p'', timestamp = ''1970-01-01T00:00:00'',
                 metadata = [(''a'', 1)], classification = None, extracted_data = None,
                 conversation_id = Some ''c1'',
                 agent_history = [''metadata_stored'', ''conversation_id_stored'']\<rparr>) \<and>
   distinct (map fst [(''b'', 2::int)]) \<and>
   get_metadata (snd (store_metadata still ''p'' [(''b'', 2)] noted)) ''p'' =
     Some [(''a'', 1), (''b'', 2)] \<and>
   map_of [(''a'', 1), (''b'', 2::int)] ''b'' = Some 2"
proof -
  note ryw = read_your_write [of still "''p''" order_json noted "[(''total'', 7)]" "''c1''"
      "[(''b'', 2)]"]
  let ?r = "\<lparr>processing_id = ''p'', timestamp = ''1970-01-01T00:00:00'',
              metadata = [(''a'', 1::int)], classification = None, extracted_data = None,
              conversation_id = Some ''c1'',
              agent_history = [''metadata_stored'', ''conversation_id_stored'']\<rparr>"
  have e: "map_of (memory (snd (store_conversation_id still ''p'' ''c1'' noted))) ''p'' = Some ?r"
    by (simp add: noted_def run_defs)
  have "serialize_entry still ?r = Inr ?r" by (simp add: serialize_entry_def)
  with ryw e
  have gm: "get_memory still (snd (store_conversation_id still ''p'' ''c1'' noted)) ''p'' =
            Inr (Some ?r)"
    by auto
  have md: "get_metadata (snd (store_metadata still ''p'' [(''b'', 2)] noted)) ''p'' =
              Some [(''a'', 1), (''b'', 2)]"
    by (simp add: get_metadata_def noted_def run_defs)
  with ryw have "map_of [(''a'', 1), (''b'', 2::int)] ''b'' = Some 2" by simp
  with ryw gm md show ?thesis by simp
qed

text \<open>
  The claim as it is written is about every successful write. A record classified on the
  first day is older than \<open>cleanup_hours\<close> when its metadata arrives 25 hours later: the
  write succeeds, the sweep it starts evicts the record, and both reads find nothing.
\<close>

theorem late_metadata_is_not_read_back:
  "fst (store_classification next_day ''p'' order_json (init next_day 1000 24 :: int SharedMemory)) \<and>
   get_classification classified_day0 ''p'' = Some order_json \<and>
   fst (store_metadata next_day ''p'' [(''file'', 1)] classified_day0) \<and>
   get_metadata annotated_day1 ''p'' = None \<and>
   get_classification annotated_day1 ''p'' = None"
  by (simp add: classified_day0_def annotated_day1_def get_metadata_def get_classification_def
      run_defs)

section \<open>One record, one history\<close>

lemma wf_apply_write: "wf s \<Longrightarrow> wf (snd (apply_write E pid w s))"
  by (cases w)
     (simp_all add: wf_store_metadata wf_store_classification wf_store_extracted_data
        wf_store_conversation_id)

lemma wf_run_writes: "wf s \<Longrightarrow> wf (run_writes E pid ws s)"
  by (induction ws arbitrary: s) (simp_all add: wf_apply_write)

lemma apply_write_present:
  "\<not> runs_retention w \<Longrightarrow> map_of (memory (snd (apply_write E pid w s))) pid \<noteq> None"
  by (cases w)
     (simp_all add: store_classification_def store_extracted_data_def store_conversation_id_def
        Let_def put_lookup)

lemma kept_without_retention:
  "list_all (\<lambda>w. \<not> runs_retention w) ws \<Longrightarrow> kept E pid ws s"
  by (induction ws arbitrary: s) (simp_all add: apply_write_present)

lemma apply_write_history:
  assumes "map_of (memory (snd (apply_write E pid w s))) pid = Some e'"
  shows "\<exists>tag. agent_history e' = history_of s pid @ [tag]"
proof (cases w)
  case (PutMetadata md)
  with assms have "map_of (memory (snd (store_metadata E pid md s))) pid = Some e'" by simp
  from store_metadata_record [OF this] show ?thesis
    by (auto simp: history_of_def new_entry_def split: option.splits)
next
  case (PutClassification c)
  with assms show ?thesis
    by (auto simp: store_classification_def Let_def put_lookup history_of_def new_entry_def
        split: option.splits)
next
  case (PutExtractedData d)
  with assms show ?thesis
    by (auto simp: store_extracted_data_def Let_def put_lookup history_of_def new_entry_def
        split: option.splits)
next
  case (PutConversationId cid)
  with assms show ?thesis
    by (auto simp: store_conversation_id_def Let_def put_lookup history_of_def new_entry_def
        split: option.splits)
qed

lemma kept_history:
  "kept E pid ws s \<Longrightarrow>
   \<exists>tags. history_of (run_writes E pid ws s) pid = history_of s pid @ tags \<and>
          length tags = length ws"
proof (induction ws arbitrary: s)
  case Nil
  then show ?case by simp
next
  case (Cons w ws)
  let ?s1 = "snd (apply_write E pid w s)"
  from Cons.prems obtain e' where e': "map_of (memory ?s1) pid = Some e'" and k: "kept E pid ws ?s1"
    by auto
  from apply_write_history [OF e'] obtain tag where "agent_history e' = history_of s pid @ [tag]"
    by blast
  with e' have h1: "history_of ?s1 pid = history_of s pid @ [tag]"
    by (simp add: history_of_def)
  from Cons.IH [OF k] obtain tags where
    "history_of (run_writes E pid ws ?s1) pid = history_of ?s1 pid @ tags" "length tags = length ws"
    by blast
  with h1 have "history_of (run_writes E pid (w # ws) s) pid = history_of s pid @ (tag # tags)"
    and "length (tag # tags) = length (w # ws)"
    by simp_all
  then show ?case by blast
qed

lemma kept_present:
  "kept E pid ws s \<Longrightarrow> ws \<noteq> [] \<Longrightarrow> map_of (memory (run_writes E pid ws s)) pid \<noteq> None"
proof (induction ws arbitrary: s)
  case Nil
  then show ?case by simp
next
  case (Cons w ws)
  then show ?case by (cases ws) auto
qed

lemma one_record:
  assumes "wf s" and "map_of (memory s) pid \<noteq> None"
  shows "length (filter (\<lambda>x. processing_id (snd x) = pid) (memory s)) = 1"
proof -
  have d: "distinct (map fst (memory s))" using assms(1) by (simp add: wf_def)
  have "filter (\<lambda>x. processing_id (snd x) = pid) (memory s) =
        filter (\<lambda>x. fst x = pid) (memory s)"
    using assms(1) by (intro filter_cong) (auto simp: wf_def list_all_iff)
  then have "length (filter (\<lambda>x. processing_id (snd x) = pid) (memory s)) =
             length (filter (\<lambda>k. k = pid) (map fst (memory s)))"
    by (simp add: filter_map comp_def)
  also have "\<dots> = card ({k. k = pid} \<inter> set (map fst (memory s)))"
    using d by (rule distinct_length_filter)
  also have "{k. k = pid} \<inter> set (map fst (memory s)) = {pid}"
    using assms(2) by (auto simp: map_of_eq_None_iff)
  finally show ?thesis by simp
qed

text \<open>
  C3, as the code has it. In a store that satisfies the invariant, take a sequence of
  writes to one id, of any of the four kinds, after each of which the record is still in
  the table; that is always so when none of them is a \<open>store_metadata\<close>, the only write
  that runs the retention pass. Then exactly one record with that id exists afterwards,
  and its history is the history the record had before (none, if the id was absent)
  followed by one tag for each write: nothing is cut or reordered, and from an absent id
  the length is the number of writes.
\<close>

theorem same_id_writes_extend_history:
  assumes "wf s"
    and "kept E pid ws s \<or> list_all (\<lambda>w. \<not> runs_retention w) ws"
    and "ws \<noteq> []"
  shows "length (filter (\<lambda>x. processing_id (snd x) = pid) (memory (run_writes E pid ws s))) = 1 \<and>
         (\<exists>tags. history_of (run_writes E pid ws s) pid = history_of s pid @ tags \<and>
                 length tags = length ws) \<and>
         (map_of (memory s) pid = None \<longrightarrow>
            length (history_of (run_writes E pid ws s) pid) = length ws)"
proof -
  from assms(2) have k: "kept E pid ws s" by (auto intro: kept_without_retention)
  from kept_history [OF k] obtain tags where
    t: "history_of (run_writes E pid ws s) pid = history_of s pid @ tags" "length tags = length ws"
    by blast
  have "length (filter (\<lambda>x. processing_id (snd x) = pid) (memory (run_writes E pid ws s))) = 1"
    using assms(1,3) k by (intro one_record wf_run_writes kept_present)
  moreover have "length (history_of (run_writes E pid ws s) pid) = length ws"
    if "map_of (memory s) pid = None"
    using that t by (simp add: history_of_def)
  ultimately show ?thesis using t by blast
qed

theorem same_id_writes_extend_history_witness:
  "wf (init still 1000 24 :: int SharedMemory) \<and>
   kept still ''p1''
     [PutMetadata [(''file'', 1)], PutClassification order_json, PutConversationId ''c1'']
     (init still 1000 24 :: int SharedMemory) \<and>
   map_of (memory (init still 1000 24 :: int SharedMemory)) ''p1'' = None \<and>
   length (filter (\<lambda>x. processing_id (snd x) = ''p1'')
     (memory (run_writes still ''p1''
        [PutMetadata [(''file'', 1)], PutClassification order_json, PutConversationId ''c1'']
        (init still 1000 24 :: int SharedMemory)))) = 1 \<and>
   length (history_of (run_writes still ''p1''
        [PutMetadata [(''file'', 1)], PutClassification order_json, PutConversationId ''c1'']
        (init still 1000 24 :: int SharedMemory)) ''p1'') = 3"
proof -
  let ?ws = "[PutMetadata [(''file'', 1::int)], PutClassification order_json, PutConversationId ''c1'']"
  let ?s = "init still 1000 24 :: int SharedMemory"
  have k: "kept still ''p1'' ?ws ?s"
    by (simp add: run_defs)
  have a: "map_of (memory ?s) ''p1'' = None"
    by (simp add: init_def)
  have ne: "?ws \<noteq> []" by simp
  from same_id_writes_extend_history [OF wf_init disjI1 [OF k] ne] a k wf_init
  show ?thesis by simp
qed

text \<open>
  The claim as it is written is about every sequence of successful writes. Two
  \<open>store_metadata\<close> calls 25 hours apart both succeed, and the sweep started by the second
  evicts the record: no record and no history are left.
\<close>

theorem late_second_write_drops_record:
  "fst (apply_write next_day ''p'' (PutMetadata [(''a'', 1)]) (init next_day 1000 24 :: int SharedMemory)) \<and>
   fst (apply_write next_day ''p'' (PutMetadata [(''b'', 2)]) noted_day0) \<and>
   run_writes next_day ''p'' [PutMetadata [(''a'', 1)], PutMetadata [(''b'', 2)]]
     (init next_day 1000 24 :: int SharedMemory) = noted_day1 \<and>
   memory noted_day1 = [] \<and>
   history_of noted_day1 ''p'' = []"
  by (simp add: noted_day0_def noted_day1_def history_of_def run_defs)

end
